theory Spec2Isabelle
  imports Complex_Main "HOL-Library.Word"
begin

unbundle bit_operations_syntax

section \<open>Data model (types.ts)\<close>

text \<open>
  A JavaScript string is a sequence of UTF-16 code units, and \<open>===\<close> on strings compares
  these sequences. Strings are therefore lists of 16-bit words; \<open>js\<close> writes an ASCII
  literal of the source as such a list.
\<close>

type_synonym jsstring = "16 word list"

definition js :: "string \<Rightarrow> jsstring" where
  "js s = map (\<lambda>c. of_nat (of_char c)) s"

record DictionaryResult =
  word :: jsstring
  reading :: jsstring
  romaji :: jsstring
  definition_cn :: jsstring
  definition_jp :: jsstring
  example_jp :: jsstring
  example_cn :: jsstring

text \<open>
  The fields \<open>id\<close> and \<open>definition\<close> of the source are \<open>id_field\<close> and
  \<open>definition_field\<close> here: \<open>id\<close> is the identity function of HOL and
  \<open>definition\<close> a keyword. \<open>timestamp\<close> holds a reading of \<open>Date.now()\<close>, an integral number
  of milliseconds.
\<close>

record WordHistoryItem =
  id_field :: jsstring
  word :: jsstring
  reading :: jsstring
  definition_field :: jsstring
  definition_jp :: jsstring
  example_jp :: jsstring
  example_cn :: jsstring
  timestamp :: int

record DictionaryState =
  data :: "DictionaryResult option"
  imageUrl :: "jsstring option"
  isLoadingText :: bool
  isLoadingImage :: bool
  isLoadingAudioWord :: bool
  isLoadingAudioSentence :: bool
  isAnalyzingImage :: bool
  isGeneratingStory :: bool
  error :: "jsstring option"
  history :: "WordHistoryItem list"
  dailyStory :: "jsstring option"

record UserProfile =
  name :: jsstring
  email :: jsstring
  photoURL :: "jsstring option"

datatype ViewMode = SEARCH | WORDBOOK

text \<open>The state of the \<open>App\<close> component: its four \<open>useState\<close> cells.\<close>

record App =
  query :: jsstring
  view :: ViewMode
  user :: "UserProfile option"
  state :: DictionaryState

definition initialState :: DictionaryState where
  "initialState = \<lparr> data = None, imageUrl = None, isLoadingText = False,
     isLoadingImage = False, isLoadingAudioWord = False, isLoadingAudioSentence = False,
     isAnalyzingImage = False, isGeneratingStory = False, error = None, history = [],
     dailyStory = None \<rparr>"

definition initialApp :: App where
  "initialApp = \<lparr> query = [], view = SEARCH, user = None, state = initialState \<rparr>"

section \<open>Number to string\<close>

text \<open>
  \<open>Number.prototype.toString\<close> on an integral number below \<open>10^21\<close> in magnitude gives
  its decimal digits, with a leading minus sign for a negative one. Every reading of
  \<open>Date.now()\<close> is in that range.
\<close>

definition digit_char :: "nat \<Rightarrow> 16 word" where
  "digit_char d = of_nat (48 + d)"

fun nat_toString :: "nat \<Rightarrow> jsstring" where
  "nat_toString n =
     (if n < 10 then [digit_char n] else nat_toString (n div 10) @ [digit_char (n mod 10)])"

declare nat_toString.simps [simp del]

definition int_toString :: "int \<Rightarrow> jsstring" where
  "int_toString i = (if i < 0 then 0x2D # nat_toString (nat (- i)) else nat_toString (nat i))"

section \<open>History insertion (App: addToHistory)\<close>

text \<open>\<open>prev.history.some(item => item.word === result.word)\<close>\<close>

definition has_word :: "WordHistoryItem list \<Rightarrow> jsstring \<Rightarrow> bool" where
  "has_word h w = list_ex (\<lambda>item. word item = w) h"

text \<open>
  The object literal \<open>newItem\<close>. \<open>Date.now()\<close> is read twice, once for the id and once
  for the timestamp; the two readings are the parameters \<open>t_id\<close> and \<open>t_ts\<close>.
\<close>

definition newItem :: "int \<Rightarrow> int \<Rightarrow> DictionaryResult \<Rightarrow> WordHistoryItem" where
  "newItem t_id t_ts result =
     \<lparr> id_field = int_toString t_id,
       word = DictionaryResult.word result,
       reading = DictionaryResult.reading result,
       definition_field = definition_cn result,
       definition_jp = DictionaryResult.definition_jp result,
       example_jp = DictionaryResult.example_jp result,
       example_cn = DictionaryResult.example_cn result,
       timestamp = t_ts \<rparr>"

text \<open>The state updater that \<open>addToHistory\<close> hands to \<open>setState\<close>.\<close>

definition addToHistory :: "int \<Rightarrow> int \<Rightarrow> DictionaryResult \<Rightarrow> DictionaryState \<Rightarrow> DictionaryState" where
  "addToHistory t_id t_ts result prev =
     (if has_word (history prev) (DictionaryResult.word result) then prev
      else prev\<lparr> history := newItem t_id t_ts result # history prev \<rparr>)"

section \<open>Effects of the handlers\<close>

text \<open>
  A handler of the component is a function from the component state to the new state
  and the effects it has on the outside: requests to the AI service, lines on the
  console, playback. An \<open>async\<close> handler is cut at its \<open>await\<close>: the part before
  issues the request, the part after (\<open>_settled\<close>) takes the outcome of the promise
  that the service function returns.

  A handler sees the component state in two ways. What it reads from \<open>state\<close> or
  \<open>query\<close> is what the last render captured (\<open>handlePlayAudio\<close> is rebuilt by
  \<open>useCallback\<close> on \<open>[state]\<close>, the other handlers at every render): the parameter
  \<open>captured\<close>. What it writes goes through an updater \<open>prev => ...\<close>, which runs on
  the state with the updates queued before it applied: the parameter \<open>a\<close>, whose
  update is the result.
\<close>

datatype audio_type = TWord | TSentence

text \<open>
  The asynchronous calls that the handlers make: those to \<open>services/geminiService\<close>
  and the reading of the chosen file. A speech request carries the \<open>type\<close> of the
  invocation of \<open>handlePlayAudio\<close> that awaits it.
\<close>

datatype request =
    FetchDictionaryDefinition jsstring
  | GenerateWordImage jsstring jsstring
  | GenerateSpeech audio_type jsstring
  | GenerateDailyStory "WordHistoryItem list"
  | ReadAsDataURL
  | ExtractTextFromImage "jsstring option"

datatype effect =
    PreventDefault
  | Request request
  | ConsoleError jsstring
  | PlayBuffer

datatype 'a outcome = Resolved 'a | Rejected jsstring

fun requests :: "effect list \<Rightarrow> request list" where
  "requests [] = []"
| "requests (Request r # es) = r # requests es"
| "requests (_ # es) = requests es"

fun logged :: "effect list \<Rightarrow> jsstring list" where
  "logged [] = []"
| "logged (ConsoleError m # es) = m # logged es"
| "logged (_ # es) = logged es"

section \<open>String.prototype.trim\<close>

text \<open>
  The code units that \<open>trim\<close> strips: the white space and line terminators of
  ECMAScript, all of them in the basic plane.
\<close>

definition isWhiteSpace :: "16 word \<Rightarrow> bool" where
  "isWhiteSpace c \<longleftrightarrow>
     c = 0x09 \<or> c = 0x0A \<or> c = 0x0B \<or> c = 0x0C \<or> c = 0x0D \<or> c = 0x20 \<or> c = 0xA0 \<or>
     c = 0x1680 \<or> (0x2000 \<le> c \<and> c \<le> 0x200A) \<or> c = 0x2028 \<or> c = 0x2029 \<or>
     c = 0x202F \<or> c = 0x205F \<or> c = 0x3000 \<or> c = 0xFEFF"

definition trim :: "jsstring \<Rightarrow> jsstring" where
  "trim s = rev (dropWhile isWhiteSpace (rev (dropWhile isWhiteSpace s)))"

section \<open>Lookup (App: handleSearch, generateImage, handleRegenerateImage)\<close>

text \<open>\<open>overrideQuery || query\<close>: an absent or empty override gives way to the query.\<close>

definition searchTerm :: "jsstring option \<Rightarrow> jsstring \<Rightarrow> jsstring" where
  "searchTerm overrideQuery q =
     (case overrideQuery of None \<Rightarrow> q | Some ov \<Rightarrow> if ov = [] then q else ov)"

text \<open>\<open>e\<close> tells whether the form event is there. \<open>query\<close> is read as captured.\<close>

definition handleSearch ::
    "bool \<Rightarrow> jsstring option \<Rightarrow> App \<Rightarrow> App \<Rightarrow> App \<times> effect list" where
  "handleSearch e overrideQuery captured a =
     (let prevent = (if e then [PreventDefault] else []);
          t = searchTerm overrideQuery (query captured)
      in if trim t = [] then (a, prevent)
         else (a\<lparr> view := SEARCH,
                 state := (state a)\<lparr> isLoadingText := True, isLoadingImage := True,
                            error := None, data := None, imageUrl := None \<rparr> \<rparr>,
               prevent @ [Request (FetchDictionaryDefinition t)]))"

text \<open>
  After \<open>await fetchDictionaryDefinition(searchTerm)\<close>: the \<open>try\<close> block on a
  definition, the \<open>catch\<close> block on a rejection. The promise of
  \<open>fetchDictionaryDefinition\<close> is rejected when the call to the AI service is, when
  the response has no text (\<open>if (!text) throw\<close>) and when \<open>JSON.parse\<close> throws
  on the text; it resolves with what \<open>JSON.parse\<close> returns, taken to be a
  \<open>DictionaryResult\<close> as the response schema of the request has it.
\<close>

definition handleSearch_settled ::
    "DictionaryResult outcome \<Rightarrow> int \<Rightarrow> int \<Rightarrow> App \<Rightarrow> App \<times> effect list" where
  "handleSearch_settled out t_id t_ts a =
     (case out of
        Resolved d \<Rightarrow>
          (a\<lparr> query := DictionaryResult.word d,
              state := addToHistory t_id t_ts d
                         ((state a)\<lparr> data := Some d, isLoadingText := False \<rparr>) \<rparr>,
           [Request (GenerateWordImage (DictionaryResult.word d) (definition_cn d))])
      | Rejected reason \<Rightarrow>
          (a\<lparr> state := (state a)\<lparr>
                error := Some (js ''Failed to find the word. Please try again.''),
                isLoadingText := False, isLoadingImage := False \<rparr> \<rparr>,
           [ConsoleError reason]))"

text \<open>After \<open>await generateWordImage(word, def)\<close> in \<open>generateImage\<close>.\<close>

definition generateImage_settled :: "jsstring outcome \<Rightarrow> App \<Rightarrow> App \<times> effect list" where
  "generateImage_settled out a =
     (case out of
        Resolved url \<Rightarrow>
          (a\<lparr> state := (state a)\<lparr> imageUrl := Some url, isLoadingImage := False \<rparr> \<rparr>, [])
      | Rejected reason \<Rightarrow>
          (a\<lparr> state := (state a)\<lparr> isLoadingImage := False \<rparr> \<rparr>,
           [ConsoleError (js ''Image generation failed'')]))"

text \<open>\<open>state.data\<close> is read as captured, for the test and for the request.\<close>

definition handleRegenerateImage :: "App \<Rightarrow> App \<Rightarrow> App \<times> effect list" where
  "handleRegenerateImage captured a =
     (case data (state captured) of
        None \<Rightarrow> (a, [])
      | Some d \<Rightarrow>
          (a\<lparr> state := (state a)\<lparr> isLoadingImage := True, imageUrl := None \<rparr> \<rparr>,
           [Request (GenerateWordImage (DictionaryResult.word d) (definition_cn d))]))"

section \<open>Audio (App: handlePlayAudio)\<close>

text \<open>\<open>state[loadingKey]\<close> and \<open>{ ...prev, [loadingKey]: v }\<close>\<close>

definition loadingKey :: "audio_type \<Rightarrow> DictionaryState \<Rightarrow> bool" where
  "loadingKey ty s = (case ty of TWord \<Rightarrow> isLoadingAudioWord s
                                | TSentence \<Rightarrow> isLoadingAudioSentence s)"

definition set_loadingKey :: "audio_type \<Rightarrow> bool \<Rightarrow> DictionaryState \<Rightarrow> DictionaryState" where
  "set_loadingKey ty v s = (case ty of TWord \<Rightarrow> s\<lparr> isLoadingAudioWord := v \<rparr>
                                      | TSentence \<Rightarrow> s\<lparr> isLoadingAudioSentence := v \<rparr>)"

text \<open>
  The guard \<open>if (state[loadingKey]) return\<close> tests the flag as captured; the flag is
  set through \<open>prev\<close>.
\<close>

definition handlePlayAudio ::
    "jsstring \<Rightarrow> audio_type \<Rightarrow> App \<Rightarrow> App \<Rightarrow> App \<times> effect list" where
  "handlePlayAudio text ty captured a =
     (if loadingKey ty (state captured) then (a, [])
      else (a\<lparr> state := set_loadingKey ty True (state a) \<rparr>,
            [Request (GenerateSpeech ty text)]))"

text \<open>
  After \<open>await generateSpeech(text)\<close>. The outcome is that of the rest of the \<open>try\<close>
  block: resolved when the audio was decoded and handed to \<open>playBuffer\<close>, rejected when
  the request or a decoding step threw. The \<open>finally\<close> block runs on both.
\<close>

definition handlePlayAudio_settled :: "audio_type \<Rightarrow> unit outcome \<Rightarrow> App \<Rightarrow> App \<times> effect list" where
  "handlePlayAudio_settled ty out a =
     (a\<lparr> state := set_loadingKey ty False (state a) \<rparr>,
      (case out of Resolved _ \<Rightarrow> [PlayBuffer]
                 | Rejected reason \<Rightarrow> [ConsoleError (js ''Audio playback failed'')]))"

section \<open>Story (App: handleGenerateStory)\<close>

text \<open>The guard and the slice read \<open>state\<close> as captured.\<close>

definition handleGenerateStory :: "App \<Rightarrow> App \<Rightarrow> App \<times> effect list" where
  "handleGenerateStory captured a =
     (if length (history (state captured)) = 0 \<or> isGeneratingStory (state captured)
      then (a, [])
      else (a\<lparr> state := (state a)\<lparr> isGeneratingStory := True, dailyStory := None \<rparr> \<rparr>,
            [Request (GenerateDailyStory (take 10 (history (state captured))))]))"

text \<open>
  \<open>services/geminiService\<close>, the end of \<open>generateDailyStory\<close>:
  \<open>return response.text || "Could not generate story."\<close>. A reply of the AI service
  without text, or with the empty text, is turned into that sentence, and the promise
  resolves; only a rejected call rejects it.
\<close>

definition generateDailyStory_returns :: "jsstring option outcome \<Rightarrow> jsstring outcome" where
  "generateDailyStory_returns reply =
     (case reply of
        Resolved response_text \<Rightarrow>
          (case response_text of
             None \<Rightarrow> Resolved (js ''Could not generate story.'')
           | Some t \<Rightarrow> if t = [] then Resolved (js ''Could not generate story.'') else Resolved t)
      | Rejected reason \<Rightarrow> Rejected reason)"

text \<open>After \<open>await generateDailyStory(...)\<close>.\<close>

definition handleGenerateStory_settled :: "jsstring outcome \<Rightarrow> App \<Rightarrow> App \<times> effect list" where
  "handleGenerateStory_settled out a =
     (case out of
        Resolved story \<Rightarrow>
          (a\<lparr> state := (state a)\<lparr> dailyStory := Some story, isGeneratingStory := False \<rparr> \<rparr>,
           [])
      | Rejected reason \<Rightarrow>
          (a\<lparr> state := (state a)\<lparr> error := Some (js ''Failed to generate story.''),
                            isGeneratingStory := False \<rparr> \<rparr>,
           []))"

section \<open>Image upload (App: handleImageUpload)\<close>

text \<open>
  What the file input holds: no file, a file that the reader refuses at once (the outer
  \<open>catch\<close>), or a file that it starts to read.
\<close>

datatype chosen = NoFile | Refused | Accepted

definition handleImageUpload :: "chosen \<Rightarrow> App \<Rightarrow> App \<times> effect list" where
  "handleImageUpload choice a =
     (case choice of
        NoFile \<Rightarrow> (a, [])
      | Refused \<Rightarrow>
          (a\<lparr> state := (state a)\<lparr> isAnalyzingImage := False, error := None \<rparr> \<rparr>, [])
      | Accepted \<Rightarrow>
          (a\<lparr> state := (state a)\<lparr> isAnalyzingImage := True, error := None \<rparr> \<rparr>,
           [Request ReadAsDataURL]))"

text \<open>\<open>result.split(',')[1]\<close>: what stands between the first comma and the next.\<close>

definition after_comma :: "jsstring \<Rightarrow> jsstring option" where
  "after_comma s =
     (case dropWhile (\<lambda>c. c \<noteq> 0x2C) s of
        [] \<Rightarrow> None
      | _ # r \<Rightarrow> Some (takeWhile (\<lambda>c. c \<noteq> 0x2C) r))"

text \<open>
  \<open>reader.onload\<close> up to its \<open>await\<close>. The reader has no \<open>onerror\<close>: a failed
  read runs no code.
\<close>

definition reader_onload :: "jsstring outcome \<Rightarrow> App \<Rightarrow> App \<times> effect list" where
  "reader_onload out a =
     (case out of
        Resolved result \<Rightarrow> (a, [Request (ExtractTextFromImage (after_comma result))])
      | Rejected reason \<Rightarrow> (a, []))"

text \<open>
  After \<open>await extractTextFromImage(base64String)\<close>: a text that is not empty becomes
  the query and is searched for; an empty one throws into the \<open>catch\<close> block, as a
  rejection does. The \<open>finally\<close> block runs on both. \<open>handleSearch\<close> is the one of
  the render that the upload happened in; it is called with an override that is not
  empty, so what it captured is not read.
\<close>

definition reader_onload_settled ::
    "jsstring outcome \<Rightarrow> App \<Rightarrow> App \<Rightarrow> App \<times> effect list" where
  "reader_onload_settled out captured a =
     (let failed = (a\<lparr> state := (state a)\<lparr>
                       error := Some (js ''Could not read text from image.''),
                       isAnalyzingImage := False \<rparr> \<rparr>, [])
      in case out of
           Resolved extractedText \<Rightarrow>
             if extractedText = [] then failed
             else
               (case handleSearch False (Some extractedText) captured
                       (a\<lparr> query := extractedText \<rparr>) of
                  (a', es) \<Rightarrow> (a'\<lparr> state := (state a')\<lparr> isAnalyzingImage := False \<rparr> \<rparr>, es))
         | Rejected reason \<Rightarrow> failed)"

section \<open>Login (App: handleLogin, handleLogout)\<close>

definition mockUser :: UserProfile where
  "mockUser = \<lparr> name = js ''Explorer'', email = js ''explorer@example.com'',
     photoURL = Some (js ''https://ui-avatars.com/api/?name=Explorer&background=f59e0b&color=fff'') \<rparr>"

definition handleLogin :: "App \<Rightarrow> App" where
  "handleLogin a = a\<lparr> user := Some mockUser \<rparr>"

definition handleLogout :: "App \<Rightarrow> App" where
  "handleLogout a = a\<lparr> user := None, view := SEARCH \<rparr>"

section \<open>The component as a transition system\<close>

text \<open>
  The component state with the updates queued so far applied (\<open>app\<close>), the state that
  the last render captured (\<open>rendered\<close>), the requests that are in flight and the
  lines on the console. An event is a user action, which runs a handler on what the
  last render captured; a render, which captures the state; or the settling of a
  request in flight, which runs the rest of the handler that awaits it. A settling
  event for a request that is not in flight changes nothing. The events are those of
  the handlers of \<open>App\<close> and of the input and navigation callbacks in its markup; the
  export of the history, which does not touch the state, is left out.
\<close>

record sys =
  app :: App
  rendered :: App
  pending :: "request list"
  console :: "jsstring list"

text \<open>The component after its first render, before any event.\<close>

definition mounted :: "App \<Rightarrow> sys" where
  "mounted a = \<lparr> app = a, rendered = a, pending = [], console = [] \<rparr>"

datatype event =
    Render
  | Search bool "jsstring option"
  | Typing jsstring
  | Navigate ViewMode
  | RegenerateImage
  | PlayAudio jsstring audio_type
  | CreateStory
  | UploadImage chosen
  | Login
  | Logout
  | DefinitionSettled jsstring "DictionaryResult outcome" int int
  | ImageSettled jsstring jsstring "jsstring outcome"
  | SpeechSettled audio_type jsstring "unit outcome"
  | StorySettled "WordHistoryItem list" "jsstring option outcome"
  | FileRead "jsstring outcome"
  | TextExtracted "jsstring option" "jsstring outcome"

definition act :: "(App \<Rightarrow> App \<times> effect list) \<Rightarrow> sys \<Rightarrow> sys" where
  "act h s =
     (case h (app s) of
        (a, es) \<Rightarrow> s\<lparr> app := a, pending := pending s @ requests es,
                      console := console s @ logged es \<rparr>)"

definition settle :: "request \<Rightarrow> (App \<Rightarrow> App \<times> effect list) \<Rightarrow> sys \<Rightarrow> sys" where
  "settle r h s =
     (if r \<in> set (pending s) then act h (s\<lparr> pending := remove1 r (pending s) \<rparr>) else s)"

fun fire :: "event \<Rightarrow> sys \<Rightarrow> sys" where
  "fire Render s = s\<lparr> rendered := app s \<rparr>"
| "fire (Search e ov) s = act (handleSearch e ov (rendered s)) s"
| "fire (Typing q) s = s\<lparr> app := (app s)\<lparr> query := q \<rparr> \<rparr>"
| "fire (Navigate v) s = s\<lparr> app := (app s)\<lparr> view := v \<rparr> \<rparr>"
| "fire RegenerateImage s = act (handleRegenerateImage (rendered s)) s"
| "fire (PlayAudio text ty) s = act (handlePlayAudio text ty (rendered s)) s"
| "fire CreateStory s = act (handleGenerateStory (rendered s)) s"
| "fire (UploadImage choice) s = act (handleImageUpload choice) s"
| "fire Login s = s\<lparr> app := handleLogin (app s) \<rparr>"
| "fire Logout s = s\<lparr> app := handleLogout (app s) \<rparr>"
| "fire (DefinitionSettled q out t_id t_ts) s =
     settle (FetchDictionaryDefinition q) (handleSearch_settled out t_id t_ts) s"
| "fire (ImageSettled w d out) s = settle (GenerateWordImage w d) (generateImage_settled out) s"
| "fire (SpeechSettled ty text out) s =
     settle (GenerateSpeech ty text) (handlePlayAudio_settled ty out) s"
| "fire (StorySettled ws reply) s =
     settle (GenerateDailyStory ws)
       (handleGenerateStory_settled (generateDailyStory_returns reply)) s"
| "fire (FileRead out) s = settle ReadAsDataURL (reader_onload out) s"
| "fire (TextExtracted b64 out) s =
     settle (ExtractTextFromImage b64) (reader_onload_settled out (rendered s)) s"

definition run :: "event list \<Rightarrow> sys \<Rightarrow> sys" where
  "run evs s = foldl (\<lambda>s ev. fire ev s) s evs"

section \<open>JSON\<close>

text \<open>
  \<open>JSON.parse\<close> and \<open>JSON.stringify\<close> belong to the platform. The values that
  \<open>JSON.parse\<close> builds are modelled as a datatype. A number is the exact value of its
  literal; JavaScript rounds it to a double, which changes no integer below \<open>2^53\<close>. An
  object is the list of its properties in the order of their creation.
\<close>

datatype json =
    JNull
  | JBool bool
  | JNumber rat
  | JString jsstring
  | JArray "json list"
  | JObject "(jsstring \<times> json) list"

subsection \<open>JSON.parse\<close>

text \<open>The white space of JSON: space, tab, line feed, carriage return.\<close>

definition json_ws :: "16 word \<Rightarrow> bool" where
  "json_ws c \<longleftrightarrow> c = 0x20 \<or> c = 0x09 \<or> c = 0x0A \<or> c = 0x0D"

definition skip_ws :: "jsstring \<Rightarrow> jsstring" where
  "skip_ws s = dropWhile json_ws s"

text \<open>
  String literals. \<open>parse_chars\<close> reads the characters after the opening quote up to the
  closing one and gives the string and the rest of the input. A control character
  below \<open>0x20\<close> must be escaped; \<open>\uXXXX\<close> takes four hex digits of either case.
\<close>

definition hex_digit :: "16 word \<Rightarrow> nat option" where
  "hex_digit c =
     (if 0x30 \<le> c \<and> c \<le> 0x39 then Some (unat c - 48)
      else if 0x41 \<le> c \<and> c \<le> 0x46 then Some (unat c - 55)
      else if 0x61 \<le> c \<and> c \<le> 0x66 then Some (unat c - 87)
      else None)"

definition hex4 :: "16 word \<Rightarrow> 16 word \<Rightarrow> 16 word \<Rightarrow> 16 word \<Rightarrow> 16 word option" where
  "hex4 a b c d =
     (case (hex_digit a, hex_digit b, hex_digit c, hex_digit d) of
        (Some x, Some y, Some z, Some w) \<Rightarrow> Some (of_nat (4096 * x + 256 * y + 16 * z + w))
      | _ \<Rightarrow> None)"

definition unescape :: "16 word \<Rightarrow> 16 word option" where
  "unescape e =
     (if e = 0x22 then Some 0x22
      else if e = 0x5C then Some 0x5C
      else if e = 0x2F then Some 0x2F
      else if e = 0x62 then Some 0x08
      else if e = 0x66 then Some 0x0C
      else if e = 0x6E then Some 0x0A
      else if e = 0x72 then Some 0x0D
      else if e = 0x74 then Some 0x09
      else None)"

definition cons_result :: "16 word \<Rightarrow> (jsstring \<times> jsstring) option \<Rightarrow> (jsstring \<times> jsstring) option" where
  "cons_result c r = (case r of None \<Rightarrow> None | Some (s, rest) \<Rightarrow> Some (c # s, rest))"

fun parse_chars :: "jsstring \<Rightarrow> (jsstring \<times> jsstring) option" where
  "parse_chars [] = None"
| "parse_chars (c # cs) =
     (if c = 0x22 then Some ([], cs)
      else if c = 0x5C then
        (case cs of
           [] \<Rightarrow> None
         | e # cs1 \<Rightarrow>
             if e = 0x75 then
               (case cs1 of
                  h1 # h2 # h3 # h4 # cs2 \<Rightarrow>
                    (case hex4 h1 h2 h3 h4 of
                       None \<Rightarrow> None
                     | Some u \<Rightarrow> cons_result u (parse_chars cs2))
                | _ \<Rightarrow> None)
             else
               (case unescape e of
                  None \<Rightarrow> None
                | Some u \<Rightarrow> cons_result u (parse_chars cs1)))
      else if c < 0x20 then None
      else cons_result c (parse_chars cs))"

text \<open>
  Number literals: an optional minus, an integer part without a leading zero, an
  optional fraction and an optional exponent.
\<close>

definition is_digit :: "16 word \<Rightarrow> bool" where
  "is_digit c \<longleftrightarrow> 0x30 \<le> c \<and> c \<le> 0x39"

definition digits_value :: "jsstring \<Rightarrow> nat" where
  "digits_value ds = foldl (\<lambda>a c. 10 * a + (unat c - 48)) 0 ds"

text \<open>An optional sign: whether it is a minus, and the rest.\<close>

definition take_minus :: "jsstring \<Rightarrow> bool \<times> jsstring" where
  "take_minus s = (case s of [] \<Rightarrow> (False, s) | c # cs \<Rightarrow> if c = 0x2D then (True, cs) else (False, s))"

definition take_sign :: "jsstring \<Rightarrow> bool \<times> jsstring" where
  "take_sign s =
     (case s of [] \<Rightarrow> (False, s)
      | c # cs \<Rightarrow> if c = 0x2D then (True, cs) else if c = 0x2B then (False, cs) else (False, s))"

text \<open>The fraction: \<open>.\<close> and at least one digit, or nothing.\<close>

definition parse_frac :: "jsstring \<Rightarrow> (rat \<times> jsstring) option" where
  "parse_frac s =
     (case s of
        [] \<Rightarrow> Some (0, s)
      | c # cs \<Rightarrow>
          if c = 0x2E then
            (let ds = takeWhile is_digit cs
             in if ds = [] then None
                else Some (of_nat (digits_value ds) / 10 ^ length ds, dropWhile is_digit cs))
          else Some (0, s))"

text \<open>The exponent: \<open>e\<close> or \<open>E\<close>, an optional sign and at least one digit, or nothing.\<close>

definition parse_exp :: "jsstring \<Rightarrow> (int \<times> jsstring) option" where
  "parse_exp s =
     (case s of
        [] \<Rightarrow> Some (0, s)
      | c # cs \<Rightarrow>
          if c = 0x65 \<or> c = 0x45 then
            (case take_sign cs of (neg, cs1) \<Rightarrow>
               (let ds = takeWhile is_digit cs1
                in if ds = [] then None
                   else Some ((if neg then - int (digits_value ds) else int (digits_value ds)),
                              dropWhile is_digit cs1)))
          else Some (0, s))"

definition parse_number :: "jsstring \<Rightarrow> (rat \<times> jsstring) option" where
  "parse_number s =
     (case take_minus s of (neg, s1) \<Rightarrow>
        (let ds = takeWhile is_digit s1
         in if ds = [] \<or> (hd ds = 0x30 \<and> length ds > 1) then None
            else
              (case parse_frac (dropWhile is_digit s1) of
                 None \<Rightarrow> None
               | Some (f, s2) \<Rightarrow>
                   (case parse_exp s2 of
                      None \<Rightarrow> None
                    | Some (e, s3) \<Rightarrow>
                        (let m = of_nat (digits_value ds) + f;
                             v = (if e < 0 then m / 10 ^ nat (- e) else m * 10 ^ nat e)
                         in Some (if neg then - v else v, s3))))))"

definition has_prefix :: "jsstring \<Rightarrow> jsstring \<Rightarrow> bool" where
  "has_prefix p s \<longleftrightarrow> take (length p) s = p"

text \<open>
  A property set on an object: a key that is there keeps its place and takes the new
  value, a new key goes to the end.
\<close>

fun define_property :: "jsstring \<Rightarrow> json \<Rightarrow> (jsstring \<times> json) list \<Rightarrow> (jsstring \<times> json) list" where
  "define_property k v [] = [(k, v)]"
| "define_property k v ((k', v') # ps) =
     (if k' = k then (k, v) # ps else (k', v') # define_property k v ps)"

text \<open>
  The parser keeps the containers that are open as a stack of frames: the elements of an
  array read so far, or the properties of an object read so far with the key whose
  value is being read. \<open>parse_value\<close> stands at the start of a value,
  \<open>parse_after\<close> behind a value that is complete, \<open>parse_member\<close> at the key of a
  member. Every call consumes input, which is how the parser terminates.
\<close>

datatype frame =
    ArrayFrame "json list"
  | ObjectFrame "(jsstring \<times> json) list" jsstring

text \<open>Each scanner gives back less input than it took, which the termination of the parser rests on.\<close>

lemma length_skip_ws: "length (skip_ws s) \<le> length s"
  by (simp add: skip_ws_def length_dropWhile_le)

lemma parse_chars_shorter: "parse_chars s = Some (str, r) \<Longrightarrow> length r < length s"
proof (induction s arbitrary: str r rule: parse_chars.induct)
  case 1
  then show ?case by simp
next
  case (2 c cs)
  then show ?case
    by (auto simp: cons_result_def split: if_splits list.splits option.splits prod.splits)
      fastforce+
qed

lemma take_minus_shorter: "take_minus s = (neg, s1) \<Longrightarrow> length s1 \<le> length s"
  by (auto simp: take_minus_def split: list.splits if_splits)

lemma take_sign_shorter: "take_sign s = (neg, s1) \<Longrightarrow> length s1 \<le> length s"
  by (auto simp: take_sign_def split: list.splits if_splits)

lemma parse_frac_shorter: "parse_frac s = Some (f, r) \<Longrightarrow> length r \<le> length s"
  by (auto simp: parse_frac_def Let_def split: list.splits if_splits
      intro: le_SucI length_dropWhile_le)

lemma parse_exp_shorter: "parse_exp s = Some (e, r) \<Longrightarrow> length r \<le> length s"
  by (auto simp: parse_exp_def Let_def split: list.splits if_splits prod.splits
      dest!: take_sign_shorter intro: le_SucI order_trans [OF length_dropWhile_le])

lemma parse_number_shorter:
  assumes "parse_number s = Some (x, r)"
  shows "length r < length s"
proof -
  obtain neg s1 where m: "take_minus s = (neg, s1)" by (cases "take_minus s")
  with assms have ds: "takeWhile is_digit s1 \<noteq> []"
    by (auto simp: parse_number_def Let_def split: if_splits)
  from assms m ds obtain f s2 e where
    f: "parse_frac (dropWhile is_digit s1) = Some (f, s2)" and e: "parse_exp s2 = Some (e, r)"
    by (auto simp: parse_number_def Let_def split: if_splits option.splits prod.splits)
  have "length (takeWhile is_digit s1) + length (dropWhile is_digit s1) = length s1"
    by (metis length_append takeWhile_dropWhile_id)
  with ds have "length (dropWhile is_digit s1) < length s1"
    by (cases "takeWhile is_digit s1") simp_all
  with parse_frac_shorter [OF f] parse_exp_shorter [OF e] take_minus_shorter [OF m]
  show ?thesis by simp
qed

lemma skip_ws_Cons_shorter:
  "skip_ws s = c # r \<Longrightarrow> length r < length s \<and> length (skip_ws r) < length s"
  using length_skip_ws [of s] length_skip_ws [of r] by simp

function parse_value :: "frame list \<Rightarrow> jsstring \<Rightarrow> json option"
  and parse_after :: "json \<Rightarrow> frame list \<Rightarrow> jsstring \<Rightarrow> json option"
  and parse_member :: "(jsstring \<times> json) list \<Rightarrow> frame list \<Rightarrow> jsstring \<Rightarrow> json option"
where
  "parse_value st s =
     (case s of
        [] \<Rightarrow> None
      | c # cs \<Rightarrow>
          if c = 0x22 then
            (case parse_chars cs of
               None \<Rightarrow> None
             | Some (str, r) \<Rightarrow> parse_after (JString str) st r)
          else if c = 0x5B then
            (case skip_ws cs of
               [] \<Rightarrow> None
             | d # r \<Rightarrow>
                 if d = 0x5D then parse_after (JArray []) st r
                 else parse_value (ArrayFrame [] # st) (d # r))
          else if c = 0x7B then
            (case skip_ws cs of
               [] \<Rightarrow> None
             | d # r \<Rightarrow>
                 if d = 0x7D then parse_after (JObject []) st r
                 else parse_member [] st (d # r))
          else if has_prefix (js ''true'') s then parse_after (JBool True) st (drop 4 s)
          else if has_prefix (js ''false'') s then parse_after (JBool False) st (drop 5 s)
          else if has_prefix (js ''null'') s then parse_after JNull st (drop 4 s)
          else
            (case parse_number s of
               None \<Rightarrow> None
             | Some (x, r) \<Rightarrow> parse_after (JNumber x) st r))"
| "parse_after v st s =
     (case st of
        [] \<Rightarrow> if skip_ws s = [] then Some v else None
      | ArrayFrame acc # st' \<Rightarrow>
          (case skip_ws s of
             [] \<Rightarrow> None
           | c # r \<Rightarrow>
               if c = 0x2C then parse_value (ArrayFrame (acc @ [v]) # st') (skip_ws r)
               else if c = 0x5D then parse_after (JArray (acc @ [v])) st' r
               else None)
      | ObjectFrame acc k # st' \<Rightarrow>
          (case skip_ws s of
             [] \<Rightarrow> None
           | c # r \<Rightarrow>
               if c = 0x2C then parse_member (define_property k v acc) st' (skip_ws r)
               else if c = 0x7D then parse_after (JObject (define_property k v acc)) st' r
               else None))"
| "parse_member acc st s =
     (case s of
        [] \<Rightarrow> None
      | c # cs \<Rightarrow>
          if c = 0x22 then
            (case parse_chars cs of
               None \<Rightarrow> None
             | Some (k, r) \<Rightarrow>
                 (case skip_ws r of
                    [] \<Rightarrow> None
                  | d # r' \<Rightarrow>
                      if d = 0x3A then parse_value (ObjectFrame acc k # st) (skip_ws r')
                      else None))
          else None)"
  by pat_completeness auto

termination
  apply (relation "measure (\<lambda>x. case x of
      Inl (st, s) \<Rightarrow> length s
    | Inr (Inl (v, st, s)) \<Rightarrow> length s
    | Inr (Inr (acc, st, s)) \<Rightarrow> length s)")
  apply (auto dest!: parse_chars_shorter parse_number_shorter skip_ws_Cons_shorter)
  done

declare parse_value.simps [simp del] parse_after.simps [simp del] parse_member.simps [simp del]

text \<open>\<open>JSON.parse(text)\<close>: \<open>None\<close> is the \<open>SyntaxError\<close>.\<close>

definition JSON_parse :: "jsstring \<Rightarrow> json option" where
  "JSON_parse s = parse_value [] (skip_ws s)"

subsection \<open>JSON.stringify on a history\<close>

text \<open>
  \<open>QuoteJSONString\<close>: the short escapes, \<open>\uXXXX\<close> in lower case for the other
  control characters and for a surrogate that is not half of a pair, every other code
  unit as it is.
\<close>

definition is_lead :: "16 word \<Rightarrow> bool" where
  "is_lead c \<longleftrightarrow> 0xD800 \<le> c \<and> c \<le> 0xDBFF"

definition is_trail :: "16 word \<Rightarrow> bool" where
  "is_trail c \<longleftrightarrow> 0xDC00 \<le> c \<and> c \<le> 0xDFFF"

definition hex_char :: "nat \<Rightarrow> 16 word" where
  "hex_char d = (if d < 10 then of_nat (48 + d) else of_nat (87 + d))"

definition unicode_escape :: "16 word \<Rightarrow> jsstring" where
  "unicode_escape c =
     [0x5C, 0x75, hex_char (unat c div 4096), hex_char (unat c div 256 mod 16),
      hex_char (unat c div 16 mod 16), hex_char (unat c mod 16)]"

definition escape_char :: "16 word \<Rightarrow> jsstring" where
  "escape_char c =
     (if c = 0x08 then [0x5C, 0x62]
      else if c = 0x09 then [0x5C, 0x74]
      else if c = 0x0A then [0x5C, 0x6E]
      else if c = 0x0C then [0x5C, 0x66]
      else if c = 0x0D then [0x5C, 0x72]
      else if c = 0x22 then [0x5C, 0x22]
      else if c = 0x5C then [0x5C, 0x5C]
      else if c < 0x20 then unicode_escape c
      else [c])"

fun quote_chars :: "jsstring \<Rightarrow> jsstring" where
  "quote_chars [] = []"
| "quote_chars (c # cs) =
     (if is_lead c then
        (case cs of
           [] \<Rightarrow> unicode_escape c
         | d # ds \<Rightarrow>
             if is_trail d then c # d # quote_chars ds
             else unicode_escape c @ quote_chars cs)
      else if is_trail c then unicode_escape c @ quote_chars cs
      else escape_char c @ quote_chars cs)"

definition JSON_quote :: "jsstring \<Rightarrow> jsstring" where
  "JSON_quote s = 0x22 # quote_chars s @ [0x22]"

text \<open>\<open>Array.prototype.join\<close> on strings.\<close>

fun join :: "jsstring \<Rightarrow> jsstring list \<Rightarrow> jsstring" where
  "join sep [] = []"
| "join sep [x] = x"
| "join sep (x # y # zs) = x @ sep @ join sep (y # zs)"

text \<open>
  \<open>JSON.stringify(state.history)\<close> for a history of the type of the state: an array of
  objects with the properties of \<open>newItem\<close> in their order, strings quoted and the
  timestamp in digits, with no white space.
\<close>

definition stringify_member :: "jsstring \<Rightarrow> jsstring \<Rightarrow> jsstring" where
  "stringify_member k v = JSON_quote k @ 0x3A # v"

definition stringify_item :: "WordHistoryItem \<Rightarrow> jsstring" where
  "stringify_item item =
     0x7B # join [0x2C]
       [stringify_member (js ''id'') (JSON_quote (id_field item)),
        stringify_member (js ''word'') (JSON_quote (word item)),
        stringify_member (js ''reading'') (JSON_quote (reading item)),
        stringify_member (js ''definition'') (JSON_quote (definition_field item)),
        stringify_member (js ''definition_jp'') (JSON_quote (definition_jp item)),
        stringify_member (js ''example_jp'') (JSON_quote (example_jp item)),
        stringify_member (js ''example_cn'') (JSON_quote (example_cn item)),
        stringify_member (js ''timestamp'') (int_toString (timestamp item))] @ [0x7D]"

definition stringify_history :: "WordHistoryItem list \<Rightarrow> jsstring" where
  "stringify_history h = 0x5B # join [0x2C] (map stringify_item h) @ [0x5D]"

text \<open>The value that a history item, and a history, is at run time.\<close>

definition json_of_item :: "WordHistoryItem \<Rightarrow> json" where
  "json_of_item item =
     JObject
       [(js ''id'', JString (id_field item)),
        (js ''word'', JString (word item)),
        (js ''reading'', JString (reading item)),
        (js ''definition'', JString (definition_field item)),
        (js ''definition_jp'', JString (definition_jp item)),
        (js ''example_jp'', JString (example_jp item)),
        (js ''example_cn'', JString (example_cn item)),
        (js ''timestamp'', JNumber (of_int (timestamp item)))]"

definition json_of_history :: "WordHistoryItem list \<Rightarrow> json" where
  "json_of_history h = JArray (map json_of_item h)"

text \<open>
  Reading a parsed value at the type \<open>WordHistoryItem[]\<close>: an array of objects that
  have the seven string properties and an integral \<open>timestamp\<close>. The code makes no
  such check; the reading says which values conform to the type.
\<close>

definition get_string :: "(jsstring \<times> json) list \<Rightarrow> jsstring \<Rightarrow> jsstring option" where
  "get_string ps k = (case map_of ps k of Some (JString s) \<Rightarrow> Some s | _ \<Rightarrow> None)"

definition get_integer :: "(jsstring \<times> json) list \<Rightarrow> jsstring \<Rightarrow> int option" where
  "get_integer ps k =
     (case map_of ps k of
        Some (JNumber q) \<Rightarrow> if of_int \<lfloor>q\<rfloor> = q then Some \<lfloor>q\<rfloor> else None
      | _ \<Rightarrow> None)"

definition item_of_json :: "json \<Rightarrow> WordHistoryItem option" where
  "item_of_json v =
     (case v of
        JObject ps \<Rightarrow>
          (case get_string ps (js ''id'') of None \<Rightarrow> None | Some i \<Rightarrow>
          (case get_string ps (js ''word'') of None \<Rightarrow> None | Some w \<Rightarrow>
          (case get_string ps (js ''reading'') of None \<Rightarrow> None | Some r \<Rightarrow>
          (case get_string ps (js ''definition'') of None \<Rightarrow> None | Some d \<Rightarrow>
          (case get_string ps (js ''definition_jp'') of None \<Rightarrow> None | Some dj \<Rightarrow>
          (case get_string ps (js ''example_jp'') of None \<Rightarrow> None | Some ej \<Rightarrow>
          (case get_string ps (js ''example_cn'') of None \<Rightarrow> None | Some ec \<Rightarrow>
          (case get_integer ps (js ''timestamp'') of None \<Rightarrow> None | Some t \<Rightarrow>
             Some \<lparr> id_field = i, word = w, reading = r, definition_field = d,
                    definition_jp = dj, example_jp = ej, example_cn = ec,
                    timestamp = t \<rparr>))))))))
      | _ \<Rightarrow> None)"

definition history_of_json :: "json \<Rightarrow> WordHistoryItem list option" where
  "history_of_json v = (case v of JArray vs \<Rightarrow> those (map item_of_json vs) | _ \<Rightarrow> None)"

section \<open>Loading and saving the history (App: the two effects)\<close>

text \<open>
  \<open>localStorage\<close>: a store of strings under string keys; \<open>getItem\<close> of a key that
  is not there gives \<open>null\<close>, here \<open>None\<close>.
\<close>

type_synonym storage = "jsstring \<rightharpoonup> jsstring"

text \<open>
  The effect on \<open>[state.history]\<close>:
  \<open>localStorage.setItem('lyb_history', JSON.stringify(state.history))\<close>.
\<close>

definition save_history :: "DictionaryState \<Rightarrow> storage \<Rightarrow> storage" where
  "save_history s store = store(js ''lyb_history'' \<mapsto> stringify_history (history s))"

text \<open>
  The history part of the effect on mount. \<open>None\<close> in the result means that
  \<open>setState\<close> is not called, so the history stays; \<open>Some parsed\<close> means that
  \<open>parsed\<close> becomes the history, as it is. \<open>if (savedHistory)\<close> is false on
  \<open>null\<close> and on the empty string.
\<close>

definition load_history :: "storage \<Rightarrow> json option \<times> effect list" where
  "load_history store =
     (case store (js ''lyb_history'') of
        None \<Rightarrow> (None, [])
      | Some savedHistory \<Rightarrow>
          if savedHistory = [] then (None, [])
          else
            (case JSON_parse savedHistory of
               None \<Rightarrow> (None, [ConsoleError (js ''Failed to load history'')])
             | Some parsed \<Rightarrow> (Some parsed, [])))"

text \<open>The history after the effect on mount, as a value at run time.\<close>

definition history_after_load :: "storage \<Rightarrow> json" where
  "history_after_load store =
     (case fst (load_history store) of
        None \<Rightarrow> json_of_history (history initialState)
      | Some parsed \<Rightarrow> parsed)"

section \<open>Decoding PCM audio (utils/audioUtils)\<close>

text \<open>
  Modelled from the spec: \<open>utils/audioUtils\<close>, which \<open>App\<close> imports \<open>decodeAudioData\<close>
  from, is not among the source files. The spec has the bytes as signed 16-bit
  little-endian mono samples: two bytes make a sample, the low byte first.
\<close>

definition sample16 :: "8 word \<Rightarrow> 8 word \<Rightarrow> 16 word" where
  "sample16 lo hi = word_cat hi lo"

text \<open>Modelled from the spec: the samples of a byte sequence, in order.\<close>

fun pcm_samples :: "8 word list \<Rightarrow> 16 word list" where
  "pcm_samples (lo # hi # bs) = sample16 lo hi # pcm_samples bs"
| "pcm_samples _ = []"

text \<open>
  Modelled from the spec: a sample is mapped to the normalized range by dividing its
  signed value by the maximum magnitude of the signed 16-bit range, \<open>32768\<close>. The
  quotient of a 16-bit integer by \<open>2^15\<close> is a binary floating-point number, so the
  division is exact and the samples are reals here.
\<close>

definition normalize :: "16 word \<Rightarrow> real" where
  "normalize w = real_of_int (sint w) / 32768"

text \<open>Modelled from the spec: the format error, and the single-channel buffer.\<close>

datatype decode_error = FormatError

record AudioBuffer =
  sampleRate :: nat
  channelData :: "real list"

text \<open>
  Modelled from the spec: \<open>decodeAudioData(bytes, sampleRate)\<close> fails with a format
  error when the byte count is odd, and otherwise gives a single-channel buffer of the
  sample rate with the normalized samples.
\<close>

definition decodeAudioData :: "8 word list \<Rightarrow> nat \<Rightarrow> decode_error + AudioBuffer" where
  "decodeAudioData bytes rate =
     (if odd (length bytes) then Inl FormatError
      else Inr \<lparr> sampleRate = rate, channelData = map normalize (pcm_samples bytes) \<rparr>)"

section \<open>Notions that the claims use\<close>

text \<open>The entries of a collection for a word.\<close>

definition entries_for :: "jsstring \<Rightarrow> WordHistoryItem list \<Rightarrow> WordHistoryItem list" where
  "entries_for w h = filter (\<lambda>item. word item = w) h"

text \<open>
  The histories built from the empty one by \<open>addToHistory\<close> alone, with readings of
  \<open>Date.now()\<close>, which are integers of at most \<open>8.64e15\<close> in magnitude.
\<close>

definition time_value :: "int \<Rightarrow> bool" where
  "time_value t \<longleftrightarrow> \<bar>t\<bar> \<le> 8640000000000000"

inductive appended :: "WordHistoryItem list \<Rightarrow> bool" where
  empty: "appended []"
| append: "appended (history s) \<Longrightarrow> time_value t_id \<Longrightarrow> time_value t_ts \<Longrightarrow>
     appended (history (addToHistory t_id t_ts result s))"

text \<open>
  The integer that two bytes encode as a signed 16-bit little-endian sample, in
  arithmetic: the unsigned value, less \<open>2^16\<close> from \<open>2^15\<close> on.
\<close>

definition signed16_le :: "8 word \<Rightarrow> 8 word \<Rightarrow> int" where
  "signed16_le lo hi =
     (let v = uint lo + 256 * uint hi in if v < 32768 then v else v - 65536)"

text \<open>The requests in flight of one audio phase.\<close>

fun is_speech :: "audio_type \<Rightarrow> request \<Rightarrow> bool" where
  "is_speech ty (GenerateSpeech ty' _) = (ty' = ty)"
| "is_speech ty _ = False"

definition in_flight :: "audio_type \<Rightarrow> sys \<Rightarrow> nat" where
  "in_flight ty s = length (filter (is_speech ty) (pending s))"

text \<open>While the flag of an audio phase is set, one request of the phase is in flight, and none otherwise.\<close>

definition audio_inv :: "audio_type \<Rightarrow> sys \<Rightarrow> bool" where
  "audio_inv ty s \<longleftrightarrow> in_flight ty s = (if loadingKey ty (state (app s)) then 1 else 0)"

text \<open>A handler that leaves an audio phase alone: its flag and its requests.\<close>

definition leaves_audio :: "audio_type \<Rightarrow> (App \<Rightarrow> App \<times> effect list) \<Rightarrow> bool" where
  "leaves_audio ty h \<longleftrightarrow>
     (\<forall>a. loadingKey ty (state (fst (h a))) = loadingKey ty (state a) \<and>
          filter (is_speech ty) (requests (snd (h a))) = [])"

text \<open>A request that is not a story request for more than ten items.\<close>

definition story_bounded :: "request \<Rightarrow> bool" where
  "story_bounded r = (case r of GenerateDailyStory ws \<Rightarrow> length ws \<le> 10 | _ \<Rightarrow> True)"

text \<open>A handler that issues such requests only.\<close>

definition issues_bounded :: "(App \<Rightarrow> App \<times> effect list) \<Rightarrow> bool" where
  "issues_bounded h \<longleftrightarrow> (\<forall>a. list_all story_bounded (requests (snd (h a))))"

text \<open>
  The definitions that the lookups resolved with in the course of a run of events: a
  \<open>DefinitionSettled\<close> event with a definition counts when its request is in flight.
\<close>

fun success_of :: "event \<Rightarrow> sys \<Rightarrow> DictionaryResult list" where
  "success_of (DefinitionSettled q (Resolved d) t_id t_ts) s =
     (if FetchDictionaryDefinition q \<in> set (pending s) then [d] else [])"
| "success_of _ s = []"

fun successes :: "event list \<Rightarrow> sys \<Rightarrow> DictionaryResult list" where
  "successes [] s = []"
| "successes (ev # evs) s = success_of ev s @ successes evs (fire ev s)"

text \<open>A request that is not an image request for anything but one of the definitions \<open>D\<close>.\<close>

definition justified :: "DictionaryResult set \<Rightarrow> request \<Rightarrow> bool" where
  "justified D r =
     (case r of
        GenerateWordImage w c \<Rightarrow> \<exists>d \<in> D. w = DictionaryResult.word d \<and> c = definition_cn d
      | _ \<Rightarrow> True)"

text \<open>
  The image requests in flight are for definitions in \<open>D\<close>, and so is the result on
  display, in the state and in what the last render captured of it.
\<close>

definition image_inv :: "DictionaryResult set \<Rightarrow> sys \<Rightarrow> bool" where
  "image_inv D s \<longleftrightarrow>
     list_all (justified D) (pending s) \<and>
     set_option (data (state (app s))) \<subseteq> D \<and>
     set_option (data (state (rendered s))) \<subseteq> D"

text \<open>A handler that keeps the two: the result on display and the requests it issues.\<close>

definition image_safe :: "DictionaryResult set \<Rightarrow> (App \<Rightarrow> App \<times> effect list) \<Rightarrow> bool" where
  "image_safe D h \<longleftrightarrow>
     (\<forall>a. set_option (data (state a)) \<subseteq> D \<longrightarrow>
          set_option (data (state (fst (h a)))) \<subseteq> D \<and>
          list_all (justified D) (requests (snd (h a))))"

text \<open>A run of events in which a render follows every event.\<close>

definition rendering :: "event list \<Rightarrow> event list" where
  "rendering evs = concat (map (\<lambda>ev. [ev, Render]) evs)"

text \<open>What may follow a number without being read as part of it.\<close>

definition number_end :: "jsstring \<Rightarrow> bool" where
  "number_end rest =
     (case rest of [] \<Rightarrow> True
      | c # _ \<Rightarrow> \<not> is_digit c \<and> c \<noteq> 0x2E \<and> c \<noteq> 0x65 \<and> c \<noteq> 0x45)"

section \<open>Concrete states and inputs\<close>

text \<open>The values at which the theorems below are instantiated.\<close>

definition cat_a :: DictionaryResult where
  "cat_a = \<lparr> DictionaryResult.word = js ''neko'', reading = js ''a'', romaji = [], definition_cn = [],
     definition_jp = [], example_jp = [], example_cn = [] \<rparr>"

definition cat_b :: DictionaryResult where
  "cat_b = \<lparr> DictionaryResult.word = js ''neko'', reading = js ''b'', romaji = [], definition_cn = [],
     definition_jp = [], example_jp = [], example_cn = [] \<rparr>"

definition dog_a :: DictionaryResult where
  "dog_a = \<lparr> DictionaryResult.word = js ''inu'', reading = js ''c'', romaji = [], definition_cn = [],
     definition_jp = [], example_jp = [], example_cn = [] \<rparr>"

definition blank_query :: App where
  "blank_query = initialApp\<lparr> query := [0x20, 0x3000, 0x09] \<rparr>"

definition twelve_words :: App where
  "twelve_words = initialApp\<lparr> state := initialState\<lparr> history :=
     map (\<lambda>n. newItem (int n) (int n) (cat_a\<lparr> DictionaryResult.word := nat_toString n \<rparr>))
       (rev [0..<12]) \<rparr> \<rparr>"

definition two_words :: DictionaryState where
  "two_words = addToHistory 1762156800001 1762156800002 dog_a
     (addToHistory 1762156800000 1762156800000 cat_a initialState)"

definition broken_store :: storage where
  "broken_store = Map.empty(js ''lyb_history'' \<mapsto> js ''[1, {oops'')"

definition numbers_store :: storage where
  "numbers_store = Map.empty(js ''lyb_history'' \<mapsto> js ''[1]'')"

text \<open>
  The user types a word and submits the form, the definition arrives, and the
  component is rendered with it.
\<close>

definition looked_up :: "event list" where
  "looked_up = [Typing (js ''neko''), Render, Search True None,
     DefinitionSettled (js ''neko'') (Resolved cat_a) 1 2, Render]"

text \<open>The same with a lookup that is rejected.\<close>

definition not_found :: "event list" where
  "not_found = [Typing (js ''neko''), Render, Search True None,
     DefinitionSettled (js ''neko'') (Rejected (js ''Error: No text returned from AI'')) 1 2,
     Render]"

section \<open>Properties of history insertion\<close>

lemma has_word_iff: "has_word h w \<longleftrightarrow> (\<exists>item \<in> set h. word item = w)"
  by (simp add: has_word_def list_ex_iff)

lemma has_word_entries: "has_word h w \<longleftrightarrow> entries_for w h \<noteq> []"
  by (auto simp: has_word_iff entries_for_def filter_empty_conv)

lemma word_newItem [simp]: "word (newItem t_id t_ts r) = DictionaryResult.word r"
  by (simp add: newItem_def)

lemma has_word_after_add:
  "has_word (history (addToHistory t_id t_ts r s)) (DictionaryResult.word r)"
  by (simp add: addToHistory_def has_word_iff)

lemma addToHistory_present:
  "has_word (history s) (DictionaryResult.word r) \<Longrightarrow> addToHistory t_id t_ts r s = s"
  by (simp add: addToHistory_def)

lemma addToHistory_absent:
  "\<not> has_word (history s) (DictionaryResult.word r) \<Longrightarrow>
   history (addToHistory t_id t_ts r s) = newItem t_id t_ts r # history s"
  by (simp add: addToHistory_def)

subsection \<open>C1: a second insertion of the same word changes nothing\<close>

text \<open>
  C1, as amended. For every collection and every two results with the same word, the
  second insertion returns the state of the first unchanged. When the collection held
  no entry for the word before, the collection then holds exactly one entry for it, the
  one the first insertion created, at its front; when it held one already, the first
  insertion returns the state unchanged as well.
\<close>

theorem C1_insertion_idempotent:
  assumes "DictionaryResult.word r1 = DictionaryResult.word r2"
  shows "addToHistory t3 t4 r2 (addToHistory t1 t2 r1 s) = addToHistory t1 t2 r1 s \<and>
    (if has_word (history s) (DictionaryResult.word r1)
     then addToHistory t1 t2 r1 s = s
     else history (addToHistory t1 t2 r1 s) = newItem t1 t2 r1 # history s \<and>
          entries_for (DictionaryResult.word r1) (history (addToHistory t1 t2 r1 s))
            = [newItem t1 t2 r1])"
proof -
  have second: "addToHistory t3 t4 r2 (addToHistory t1 t2 r1 s) = addToHistory t1 t2 r1 s"
    using assms has_word_after_add [of t1 t2 r1 s]
    by (simp add: addToHistory_present)
  have first: "has_word (history s) (DictionaryResult.word r1) \<Longrightarrow>
      addToHistory t1 t2 r1 s = s"
    by (rule addToHistory_present)
  have fresh: "entries_for (DictionaryResult.word r1) (history (addToHistory t1 t2 r1 s))
      = [newItem t1 t2 r1]"
    if absent: "\<not> has_word (history s) (DictionaryResult.word r1)"
  proof -
    from absent have "entries_for (DictionaryResult.word r1) (history s) = []"
      by (simp add: has_word_entries)
    with absent show ?thesis
      by (simp add: addToHistory_absent entries_for_def)
  qed
  from second first fresh show ?thesis
    by (simp add: addToHistory_absent)
qed

theorem C1_insertion_idempotent_witness:
  "DictionaryResult.word cat_a = DictionaryResult.word cat_b \<and>
   addToHistory 3 4 cat_b (addToHistory 1 2 cat_a initialState)
     = addToHistory 1 2 cat_a initialState \<and>
   entries_for (js ''neko'') (history (addToHistory 1 2 cat_a initialState))
     = [newItem 1 2 cat_a]"
proof -
  have same: "DictionaryResult.word cat_a = DictionaryResult.word cat_b"
    by (simp add: cat_a_def cat_b_def)
  have w: "DictionaryResult.word cat_a = js ''neko''"
    by (simp add: cat_a_def)
  have fresh: "\<not> has_word (history initialState) (DictionaryResult.word cat_a)"
    by (simp add: initialState_def has_word_def)
  note inst = C1_insertion_idempotent [OF same, of 3 4 1 2 initialState]
  from inst have twice: "addToHistory 3 4 cat_b (addToHistory 1 2 cat_a initialState)
      = addToHistory 1 2 cat_a initialState"
    by (rule conjunct1)
  from inst fresh have "entries_for (DictionaryResult.word cat_a)
      (history (addToHistory 1 2 cat_a initialState)) = [newItem 1 2 cat_a]"
    by (meson)
  then have one: "entries_for (js ''neko'') (history (addToHistory 1 2 cat_a initialState))
      = [newItem 1 2 cat_a]"
    by (simp only: w)
  from same twice one show ?thesis by (intro conjI)
qed

text \<open>
  The claim as stated fails on a collection that holds the word already: after a result
  for the word was inserted, inserting two further results for it leaves the entry of
  the earlier result, not the entry that the first of the two would create.
\<close>

theorem C1_insertion_idempotent_counterexample:
  "DictionaryResult.word cat_a = DictionaryResult.word cat_b \<and>
   entries_for (js ''neko'')
     (history (addToHistory 3 3 cat_b (addToHistory 2 2 cat_a
        (addToHistory 1 1 cat_b initialState))))
     \<noteq> [newItem 2 2 cat_a]"
  by (simp add: cat_a_def cat_b_def initialState_def addToHistory_def has_word_def
      entries_for_def newItem_def js_def)

subsection \<open>C2: newest first\<close>

text \<open>
  C2. An insertion succeeds when the collection holds no entry for the word of the
  result. After a successful insertion for a word A and then a successful insertion for
  a word B, the entry of B is the first element and the entry of A the second, in front
  of the collection as it was; each successful insertion puts its entry at the front.
\<close>

theorem C2_newest_first:
  assumes "\<not> has_word (history s) (DictionaryResult.word rA)"
    and "\<not> has_word (history (addToHistory t1 t2 rA s)) (DictionaryResult.word rB)"
  shows "DictionaryResult.word rA \<noteq> DictionaryResult.word rB \<and>
    history (addToHistory t1 t2 rA s) = newItem t1 t2 rA # history s \<and>
    history (addToHistory t3 t4 rB (addToHistory t1 t2 rA s))
      = newItem t3 t4 rB # newItem t1 t2 rA # history s \<and>
    hd (history (addToHistory t3 t4 rB (addToHistory t1 t2 rA s))) = newItem t3 t4 rB \<and>
    history (addToHistory t3 t4 rB (addToHistory t1 t2 rA s)) ! 1 = newItem t1 t2 rA"
proof -
  from assms(1) have a: "history (addToHistory t1 t2 rA s) = newItem t1 t2 rA # history s"
    by (rule addToHistory_absent)
  from assms(2) have b: "history (addToHistory t3 t4 rB (addToHistory t1 t2 rA s))
      = newItem t3 t4 rB # history (addToHistory t1 t2 rA s)"
    by (rule addToHistory_absent)
  from assms(2) have "DictionaryResult.word rA \<noteq> DictionaryResult.word rB"
    using has_word_after_add [of t1 t2 rA s] by auto
  with a b show ?thesis by simp
qed

theorem C2_newest_first_witness:
  "\<not> has_word (history initialState) (DictionaryResult.word cat_a) \<and>
   \<not> has_word (history (addToHistory 1 2 cat_a initialState)) (DictionaryResult.word dog_a) \<and>
   history (addToHistory 3 4 dog_a (addToHistory 1 2 cat_a initialState))
     = [newItem 3 4 dog_a, newItem 1 2 cat_a]"
proof -
  have h1: "\<not> has_word (history initialState) (DictionaryResult.word cat_a)"
    by (simp add: initialState_def has_word_def)
  have h2: "\<not> has_word (history (addToHistory 1 2 cat_a initialState))
      (DictionaryResult.word dog_a)"
    by (simp add: initialState_def has_word_def addToHistory_def newItem_def cat_a_def
        dog_a_def js_def)
  from C2_newest_first [OF h1 h2, of 3 4] h1 h2 show ?thesis
    by (simp add: initialState_def)
qed

section \<open>Parsing what was printed\<close>

subsection \<open>Strings\<close>

lemma hex_digit_hex_char: "d < 16 \<Longrightarrow> hex_digit (hex_char d) = Some d"
proof -
  assume d: "d < 16"
  have u: "unat (of_nat n :: 16 word) = n" if "n < 200" for n
    using that by (simp add: unat_of_nat)
  have le: "(of_nat a :: 16 word) \<le> of_nat b \<longleftrightarrow> a \<le> b" if "a < 200" "b < 200" for a b
    using that by (simp add: word_le_nat_alt unat_of_nat)
  show ?thesis
  proof (cases "d < 10")
    case True
    then have "(0x30 :: 16 word) \<le> of_nat (48 + d) \<and> (of_nat (48 + d) :: 16 word) \<le> 0x39"
      using le [of 48 "48 + d"] le [of "48 + d" 57] by simp
    with True show ?thesis
      using u [of "48 + d"] by (simp add: hex_digit_def hex_char_def)
  next
    case False
    with d have "(0x61 :: 16 word) \<le> of_nat (87 + d) \<and> (of_nat (87 + d) :: 16 word) \<le> 0x66"
      using le [of 97 "87 + d"] le [of "87 + d" 102] by simp
    moreover from False d have "\<not> (of_nat (87 + d) :: 16 word) \<le> 0x39"
      using le [of "87 + d" 57] by simp
    moreover from False d have "\<not> (of_nat (87 + d) :: 16 word) \<le> 0x46"
      using le [of "87 + d" 70] by simp
    ultimately show ?thesis
      using False d u [of "87 + d"] by (simp add: hex_digit_def hex_char_def)
  qed
qed

lemma hex_split:
  "4096 * (n div 4096) + 256 * (n div 256 mod 16) + 16 * (n div 16 mod 16) + n mod 16 = (n::nat)"
proof -
  have d2: "n div 256 = n div 16 div 16" and d3: "n div 4096 = n div 16 div 16 div 16"
    by (simp_all add: div_mult2_eq)
  have a: "16 * (n div 16) + n mod 16 = n"
    by simp
  have b: "16 * (n div 16 div 16) + n div 16 mod 16 = n div 16"
    by simp
  have c: "16 * (n div 16 div 16 div 16) + n div 16 div 16 mod 16 = n div 16 div 16"
    by simp
  from a b c show ?thesis
    unfolding d2 d3 by linarith
qed

lemma hex4_unicode:
  "hex4 (hex_char (unat c div 4096)) (hex_char (unat c div 256 mod 16))
     (hex_char (unat c div 16 mod 16)) (hex_char (unat c mod 16)) = Some c"
proof -
  have "unat c < 65536" using unsigned_less [of c, where 'a = nat] by simp
  then have "unat c div 4096 < 16" by simp
  then show ?thesis
    by (simp add: hex4_def hex_digit_hex_char hex_split)
qed

lemma parse_chars_unicode_escape:
  "parse_chars (unicode_escape c @ rest) = cons_result c (parse_chars rest)"
  by (simp add: unicode_escape_def hex4_unicode)

lemma lead_plain: "is_lead c \<Longrightarrow> c \<noteq> 0x22 \<and> c \<noteq> 0x5C \<and> \<not> c < 0x20"
  by (auto simp: is_lead_def word_le_nat_alt word_less_nat_alt)

lemma trail_plain: "is_trail c \<Longrightarrow> c \<noteq> 0x22 \<and> c \<noteq> 0x5C \<and> \<not> c < 0x20"
  by (auto simp: is_trail_def word_le_nat_alt word_less_nat_alt)

lemma parse_chars_escape_char:
  "parse_chars (escape_char c @ rest) = cons_result c (parse_chars rest)"
  by (simp add: escape_char_def parse_chars_unicode_escape unescape_def)

lemma parse_chars_quote_chars:
  "parse_chars (quote_chars s @ 0x22 # rest) = Some (s, rest)"
proof (induction s rule: quote_chars.induct)
  case 1
  show ?case by simp
next
  case (2 c cs)
  show ?case
  proof (cases "is_lead c")
    case lead: True
    show ?thesis
    proof (cases cs)
      case Nil
      with lead show ?thesis
        by (simp add: parse_chars_unicode_escape cons_result_def)
    next
      case (Cons d ds)
      show ?thesis
      proof (cases "is_trail d")
        case True
        with lead Cons 2(1) [of d ds] lead_plain [of c] trail_plain [of d] show ?thesis
          by (simp add: cons_result_def)
      next
        case False
        with lead Cons 2(2) [of d ds] show ?thesis
          by (simp add: parse_chars_unicode_escape cons_result_def del: parse_chars.simps)
      qed
    qed
  next
    case nolead: False
    show ?thesis
    proof (cases "is_trail c")
      case True
      with nolead 2(3) show ?thesis
        by (simp add: parse_chars_unicode_escape cons_result_def del: parse_chars.simps)
    next
      case False
      with nolead 2(4) show ?thesis
        by (simp add: parse_chars_escape_char cons_result_def del: parse_chars.simps)
    qed
  qed
qed

subsection \<open>Numbers\<close>

lemma digit_char_props:
  assumes "d < 10"
  shows "is_digit (digit_char d)" and "unat (digit_char d) - 48 = d"
    and "digit_char d = 0x30 \<longleftrightarrow> d = 0" and "digit_char d \<noteq> 0x2D"
proof -
  have "unat (digit_char d) = (48 + d) mod 2 ^ LENGTH(16)"
    unfolding digit_char_def by (rule unat_of_nat)
  with assms have u: "unat (digit_char d) = 48 + d"
    by simp
  then show "unat (digit_char d) - 48 = d" by simp
  from u assms show "is_digit (digit_char d)"
    by (simp add: is_digit_def word_le_nat_alt)
  show "digit_char d = 0x30 \<longleftrightarrow> d = 0"
  proof
    assume "digit_char d = 0x30"
    then have "unat (digit_char d) = 48" by simp
    with u show "d = 0" by simp
  next
    assume "d = 0"
    then show "digit_char d = 0x30" by (simp add: digit_char_def)
  qed
  show "digit_char d \<noteq> 0x2D"
  proof
    assume "digit_char d = 0x2D"
    then have "unat (digit_char d) = 45" by simp
    with u show False by simp
  qed
qed

lemma nat_toString_digits: "list_all is_digit (nat_toString n)"
proof (induction n rule: nat_toString.induct)
  case (1 n)
  show ?case
  proof (cases "n < 10")
    case True
    then show ?thesis
      by (simp add: nat_toString.simps [of n] digit_char_props)
  next
    case False
    with 1 show ?thesis
      by (simp add: nat_toString.simps [of n] digit_char_props)
  qed
qed

lemma nat_toString_nonempty: "nat_toString n \<noteq> []"
  by (simp add: nat_toString.simps [of n])

lemma digits_value_snoc: "digits_value (ds @ [c]) = 10 * digits_value ds + (unat c - 48)"
  by (simp add: digits_value_def)

lemma digits_value_nat_toString: "digits_value (nat_toString n) = n"
proof (induction n rule: nat_toString.induct)
  case (1 n)
  show ?case
  proof (cases "n < 10")
    case True
    then show ?thesis
      by (simp add: nat_toString.simps [of n] digits_value_def digit_char_props)
  next
    case False
    with 1 show ?thesis
      by (simp add: nat_toString.simps [of n] digits_value_snoc digit_char_props)
  qed
qed

lemma hd_nat_toString_zero: "hd (nat_toString n) = 0x30 \<Longrightarrow> n = 0"
proof (induction n rule: nat_toString.induct)
  case (1 n)
  show ?case
  proof (cases "n < 10")
    case True
    with 1(2) show ?thesis
      by (simp add: nat_toString.simps [of n] digit_char_props)
  next
    case False
    with 1(2) have "hd (nat_toString (n div 10)) = 0x30"
      by (simp add: nat_toString.simps [of n] nat_toString_nonempty)
    with False 1(1) have "n div 10 = 0" by simp
    with False show ?thesis by simp
  qed
qed

lemma no_leading_zero:
  "\<not> (hd (nat_toString n) = 0x30 \<and> 1 < length (nat_toString n))"
proof
  assume a: "hd (nat_toString n) = 0x30 \<and> 1 < length (nat_toString n)"
  then have "n = 0" by (simp add: hd_nat_toString_zero)
  with a show False by (simp add: nat_toString.simps [of 0])
qed

lemma hd_nat_toString_digit: "is_digit (hd (nat_toString n))"
  using nat_toString_digits [of n] nat_toString_nonempty [of n]
  by (cases "nat_toString n") simp_all

lemma takeWhile_digits:
  assumes "number_end rest"
  shows "takeWhile is_digit (nat_toString n @ rest) = nat_toString n"
    and "dropWhile is_digit (nat_toString n @ rest) = rest"
proof -
  have all: "\<forall>c \<in> set (nat_toString n). is_digit c"
    using nat_toString_digits [of n] by (simp add: list_all_iff)
  from assms have stop: "takeWhile is_digit rest = []" "dropWhile is_digit rest = rest"
    by (cases rest; simp add: number_end_def)+
  from all stop show "takeWhile is_digit (nat_toString n @ rest) = nat_toString n"
    by (simp add: takeWhile_append2)
  from all stop show "dropWhile is_digit (nat_toString n @ rest) = rest"
    by (simp add: dropWhile_append2)
qed

lemma parse_frac_end: "number_end rest \<Longrightarrow> parse_frac rest = Some (0, rest)"
  by (cases rest) (simp_all add: parse_frac_def number_end_def)

lemma parse_exp_end: "number_end rest \<Longrightarrow> parse_exp rest = Some (0, rest)"
  by (cases rest) (simp_all add: parse_exp_def number_end_def)

lemma take_minus_digits: "take_minus (nat_toString n @ rest) = (False, nat_toString n @ rest)"
proof -
  obtain c cs where c: "nat_toString n = c # cs"
    using nat_toString_nonempty [of n] by (cases "nat_toString n") auto
  with hd_nat_toString_digit [of n] have "is_digit c" by simp
  then have "c \<noteq> 0x2D" by (auto simp: is_digit_def)
  with c show ?thesis by (simp add: take_minus_def)
qed

lemma parse_digits:
  assumes "number_end rest"
  shows "parse_number (nat_toString n @ rest) = Some (of_nat n, rest)"
  using assms no_leading_zero [of n]
  by (simp add: Let_def parse_number_def take_minus_digits takeWhile_digits parse_frac_end
      parse_exp_end nat_toString_nonempty digits_value_nat_toString)

lemma parse_int_toString:
  assumes "number_end rest"
  shows "parse_number (int_toString i @ rest) = Some (of_int i, rest)"
proof (cases "i < 0")
  case True
  have "parse_number (0x2D # nat_toString (nat (- i)) @ rest)
      = Some (- of_nat (nat (- i)), rest)"
    using assms no_leading_zero [of "nat (- i)"]
    by (simp add: Let_def parse_number_def take_minus_def takeWhile_digits parse_frac_end
        parse_exp_end nat_toString_nonempty digits_value_nat_toString)
  moreover from True have "- (of_nat (nat (- i)) :: rat) = of_int i"
    by simp
  ultimately show ?thesis
    using True by (simp add: int_toString_def)
next
  case False
  then have "(of_nat (nat i) :: rat) = of_int i" by simp
  with False parse_digits [OF assms, of "nat i"] show ?thesis
    by (simp add: int_toString_def)
qed

lemma int_toString_nonempty: "int_toString i \<noteq> []"
  by (simp add: int_toString_def nat_toString_nonempty)

lemma hd_int_toString: "is_digit (hd (int_toString i)) \<or> hd (int_toString i) = 0x2D"
  by (simp add: int_toString_def hd_nat_toString_digit)

subsection \<open>Items and histories\<close>

lemma skip_ws_quote [simp]: "skip_ws (JSON_quote s @ rest) = JSON_quote s @ rest"
  by (simp add: skip_ws_def JSON_quote_def json_ws_def)

lemma skip_ws_punct [simp]:
  "skip_ws (0x2C # rest) = 0x2C # rest" "skip_ws (0x3A # rest) = 0x3A # rest"
  "skip_ws (0x5D # rest) = 0x5D # rest" "skip_ws (0x7D # rest) = 0x7D # rest"
  "skip_ws (0x7B # rest) = 0x7B # rest" "skip_ws (0x5B # rest) = 0x5B # rest"
  by (simp_all add: skip_ws_def json_ws_def)

lemma skip_ws_Nil [simp]: "skip_ws [] = []"
  by (simp add: skip_ws_def)

lemma skip_ws_int [simp]: "skip_ws (int_toString i @ rest) = int_toString i @ rest"
proof -
  have d: "\<not> json_ws (hd (nat_toString n))" for n
    using hd_nat_toString_digit [of n] by (auto simp: is_digit_def json_ws_def)
  have "\<not> json_ws (hd (int_toString i @ rest))"
    using d [of "nat i"] d [of "nat (- i)"]
    by (simp add: int_toString_def nat_toString_nonempty json_ws_def)
  moreover have "int_toString i @ rest \<noteq> []"
    by (simp add: int_toString_def nat_toString_nonempty)
  ultimately show ?thesis
    by (cases "int_toString i @ rest") (simp_all add: skip_ws_def)
qed

lemma parse_value_string:
  "parse_value st (JSON_quote s @ rest) = parse_after (JString s) st rest"
  by (simp add: parse_value.simps [of st] JSON_quote_def parse_chars_quote_chars)

lemma parse_member_key:
  "parse_member acc st (JSON_quote k @ 0x3A # rest)
     = parse_value (ObjectFrame acc k # st) (skip_ws rest)"
  by (simp add: parse_member.simps [of acc st] JSON_quote_def parse_chars_quote_chars)

lemma parse_value_int:
  assumes "number_end rest"
  shows "parse_value st (int_toString i @ rest) = parse_after (JNumber (of_int i)) st rest"
proof -
  obtain c cs where c: "int_toString i = c # cs"
    using int_toString_nonempty [of i] by (cases "int_toString i") auto
  with hd_int_toString [of i] have "is_digit c \<or> c = 0x2D"
    by simp
  then have plain: "c \<noteq> 0x22" "c \<noteq> 0x5B" "c \<noteq> 0x7B" "c \<noteq> 0x74" "c \<noteq> 0x66" "c \<noteq> 0x6E"
    by (auto simp: is_digit_def)
  then have "\<not> has_prefix (js ''true'') (c # cs @ rest)"
    "\<not> has_prefix (js ''false'') (c # cs @ rest)"
    "\<not> has_prefix (js ''null'') (c # cs @ rest)"
    by (simp_all add: has_prefix_def js_def)
  with plain have "parse_value st (c # cs @ rest) =
      (case parse_number (c # cs @ rest) of None \<Rightarrow> None
       | Some (x, r) \<Rightarrow> parse_after (JNumber x) st r)"
    by (simp add: parse_value.simps [of st "c # cs @ rest"])
  with c parse_int_toString [OF assms, of i] show ?thesis
    by simp
qed

lemma parse_after_object_comma:
  "parse_after v (ObjectFrame acc k # st) (0x2C # rest)
     = parse_member (define_property k v acc) st (skip_ws rest)"
  by (simp add: parse_after.simps [of v])

lemma parse_after_object_close:
  "parse_after v (ObjectFrame acc k # st) (0x7D # rest)
     = parse_after (JObject (define_property k v acc)) st rest"
  by (simp add: parse_after.simps [of v])

lemma parse_after_array_comma:
  "parse_after v (ArrayFrame acc # st) (0x2C # rest)
     = parse_value (ArrayFrame (acc @ [v]) # st) (skip_ws rest)"
  by (simp add: parse_after.simps [of v])

lemma parse_after_array_close:
  "parse_after v (ArrayFrame acc # st) (0x5D # rest) = parse_after (JArray (acc @ [v])) st rest"
  by (simp add: parse_after.simps [of v])

lemma parse_value_object_open:
  "parse_value st (0x7B # JSON_quote k @ rest) = parse_member [] st (JSON_quote k @ rest)"
  by (simp add: parse_value.simps [of st "0x7B # JSON_quote k @ rest"])
    (simp add: JSON_quote_def)

lemma number_end_brace: "number_end (0x7D # rest)"
  by (simp add: number_end_def is_digit_def)

lemma parse_value_item:
  "parse_value st (stringify_item item @ rest) = parse_after (json_of_item item) st rest"
  by (simp add: stringify_item_def stringify_member_def json_of_item_def
      parse_value_object_open parse_member_key parse_value_string parse_value_int
      parse_after_object_comma parse_after_object_close number_end_brace js_def)

lemma parse_value_array_open:
  "skip_ws body = d # r \<Longrightarrow> d \<noteq> 0x5D \<Longrightarrow>
   parse_value st (0x5B # body) = parse_value (ArrayFrame [] # st) (d # r)"
  by (simp add: parse_value.simps [of st "0x5B # body"])

lemma parse_value_array_empty:
  "parse_value st (0x5B # 0x5D # rest) = parse_after (JArray []) st rest"
  by (simp add: parse_value.simps [of st "0x5B # 0x5D # rest"])

lemma parse_after_top: "parse_after v [] [] = Some v"
  by (simp add: parse_after.simps [of v])

lemma items_open:
  obtains r where "join [0x2C] (map stringify_item (item # items)) @ rest = 0x7B # r"
  by (cases items) (simp_all add: stringify_item_def)

lemma parse_value_items:
  "parse_value (ArrayFrame acc # st) (join [0x2C] (map stringify_item (item # items)) @ 0x5D # rest)
     = parse_after (JArray (acc @ map json_of_item (item # items))) st rest"
proof (induction items arbitrary: acc item)
  case Nil
  show ?case
    by (simp add: parse_value_item parse_after_array_close)
next
  case (Cons next_item items)
  obtain r where "join [0x2C] (map stringify_item (next_item # items)) @ 0x5D # rest = 0x7B # r"
    by (rule items_open)
  then have "skip_ws (join [0x2C] (map stringify_item (next_item # items)) @ 0x5D # rest)
      = join [0x2C] (map stringify_item (next_item # items)) @ 0x5D # rest"
    by (simp only: skip_ws_punct)
  with Cons [of "acc @ [json_of_item item]" next_item] show ?case
    by (simp add: parse_value_item parse_after_array_comma)
qed

lemma JSON_parse_stringify_history:
  "JSON_parse (stringify_history h) = Some (json_of_history h)"
proof (cases h)
  case Nil
  then show ?thesis
    by (simp add: JSON_parse_def stringify_history_def json_of_history_def
        parse_value_array_empty parse_after_top)
next
  case (Cons item items)
  obtain r where r: "join [0x2C] (map stringify_item (item # items)) @ [0x5D] = 0x7B # r"
    by (rule items_open)
  then have "skip_ws (join [0x2C] (map stringify_item (item # items)) @ [0x5D]) = 0x7B # r"
    by (simp only: skip_ws_punct)
  then have "parse_value [] (0x5B # join [0x2C] (map stringify_item (item # items)) @ [0x5D])
      = parse_value [ArrayFrame []] (0x7B # r)"
    by (rule parse_value_array_open) simp
  also have "\<dots> = parse_value [ArrayFrame []]
      (join [0x2C] (map stringify_item (item # items)) @ [0x5D])"
    by (simp only: r)
  also have "\<dots> = parse_after (JArray (map json_of_item (item # items))) [] []"
    using parse_value_items [of "[]" "[]" item items "[]"] by simp
  also have "\<dots> = Some (JArray (map json_of_item (item # items)))"
    by (rule parse_after_top)
  finally have "parse_value [] (0x5B # join [0x2C] (map stringify_item h) @ [0x5D])
      = Some (JArray (map json_of_item h))"
    using Cons by simp
  then show ?thesis
    by (simp add: JSON_parse_def stringify_history_def json_of_history_def)
qed

lemma stringify_history_nonempty: "stringify_history h \<noteq> []"
  by (simp add: stringify_history_def)

lemma item_of_json_of_item: "item_of_json (json_of_item item) = Some item"
  by (simp add: item_of_json_def json_of_item_def get_string_def get_integer_def js_def)

lemma history_of_json_of_history: "history_of_json (json_of_history h) = Some h"
  by (induction h) (simp_all add: history_of_json_def json_of_history_def item_of_json_of_item)

subsection \<open>C3: what was saved is loaded\<close>

text \<open>
  C3. For every history built by \<open>addToHistory\<close> alone: after the save effect has
  written it, the load effect parses the stored string without a log line into the
  value of that history, so the history after loading is the same, item by item and
  in the same order. The hypothesis keeps the statement to the histories that the
  property speaks of, whose timestamps are readings of the clock; the proof does not
  need it, since every history of the type of the state is read back as it was
  written.
\<close>

theorem C3_persistence_round_trip:
  assumes "appended (history s)"
  shows "load_history (save_history s store) = (Some (json_of_history (history s)), []) \<and>
    history_after_load (save_history s store) = json_of_history (history s) \<and>
    history_of_json (history_after_load (save_history s store)) = Some (history s)"
proof -
  have "load_history (save_history s store) = (Some (json_of_history (history s)), [])"
    by (simp add: load_history_def save_history_def stringify_history_nonempty
        JSON_parse_stringify_history)
  then show ?thesis
    by (simp add: history_after_load_def history_of_json_of_history)
qed

theorem C3_persistence_round_trip_witness:
  "appended (history two_words) \<and>
   history two_words = [newItem 1762156800001 1762156800002 dog_a,
                        newItem 1762156800000 1762156800000 cat_a] \<and>
   history_of_json (history_after_load (save_history two_words Map.empty))
     = Some (history two_words)"
proof -
  have "appended (history initialState)"
    by (simp add: initialState_def appended.empty)
  then have "appended (history (addToHistory 1762156800000 1762156800000 cat_a initialState))"
    by (rule appended.append) (simp_all add: time_value_def)
  then have built: "appended (history two_words)"
    unfolding two_words_def by (rule appended.append) (simp_all add: time_value_def)
  have hist: "history two_words = [newItem 1762156800001 1762156800002 dog_a,
      newItem 1762156800000 1762156800000 cat_a]"
    by (simp add: two_words_def addToHistory_def has_word_def initialState_def newItem_def
        cat_a_def dog_a_def js_def)
  from C3_persistence_round_trip [OF built, of Map.empty]
  have "history_of_json (history_after_load (save_history two_words Map.empty))
      = Some (history two_words)"
    by blast
  with built hist show ?thesis
    by (intro conjI)
qed

subsection \<open>C4: what the load tolerates\<close>

text \<open>
  C4, as amended. When the key is absent, or the stored string is empty or is not valid
  JSON, the history after loading is the empty one, and nothing is raised (a string
  that fails to parse leaves a line on the console). When the stored string is valid
  JSON, the parsed value becomes the history as it is, whatever its shape.
\<close>

theorem C4_load_tolerance:
  "(store (js ''lyb_history'') = None \<longrightarrow>
      load_history store = (None, []) \<and> history_after_load store = json_of_history []) \<and>
   (store (js ''lyb_history'') = Some [] \<longrightarrow>
      load_history store = (None, []) \<and> history_after_load store = json_of_history []) \<and>
   (\<forall>saved. store (js ''lyb_history'') = Some saved \<and> saved \<noteq> [] \<and> JSON_parse saved = None \<longrightarrow>
      load_history store = (None, [ConsoleError (js ''Failed to load history'')]) \<and>
      history_after_load store = json_of_history []) \<and>
   (\<forall>saved parsed. store (js ''lyb_history'') = Some saved \<and> saved \<noteq> [] \<and>
        JSON_parse saved = Some parsed \<longrightarrow>
      load_history store = (Some parsed, []) \<and> history_after_load store = parsed)"
  by (simp add: load_history_def history_after_load_def initialState_def)

lemma parse_broken: "JSON_parse (js ''[1, {oops'') = None"
  by code_simp

lemma parse_numbers: "JSON_parse (js ''[1]'') = Some (JArray [JNumber 1])"
  by code_simp

theorem C4_load_tolerance_witness:
  "JSON_parse (js ''[1, {oops'') = None \<and>
   load_history broken_store = (None, [ConsoleError (js ''Failed to load history'')]) \<and>
   history_after_load broken_store = json_of_history [] \<and>
   history_after_load Map.empty = json_of_history []"
proof -
  have saved: "broken_store (js ''lyb_history'') = Some (js ''[1, {oops'')"
    by (simp add: broken_store_def)
  have nonempty: "js ''[1, {oops'' \<noteq> []"
    by (simp add: js_def)
  from C4_load_tolerance [of broken_store] saved nonempty parse_broken
  have "load_history broken_store = (None, [ConsoleError (js ''Failed to load history'')]) \<and>
      history_after_load broken_store = json_of_history []"
    by blast
  moreover from C4_load_tolerance [of Map.empty]
  have "history_after_load Map.empty = json_of_history []"
    by simp
  ultimately show ?thesis using parse_broken by simp
qed

text \<open>
  The claim as stated fails on a string that is valid JSON and not a sequence of history
  items: \<open>[1]\<close> is loaded as the history.
\<close>

theorem C4_load_tolerance_counterexample:
  "JSON_parse (js ''[1]'') = Some (JArray [JNumber 1]) \<and>
   history_of_json (JArray [JNumber 1]) = None \<and>
   history_after_load numbers_store = JArray [JNumber 1] \<and>
   history_after_load numbers_store \<noteq> json_of_history []"
proof -
  have "js ''[1]'' \<noteq> []" by (simp add: js_def)
  then have "history_after_load numbers_store = JArray [JNumber 1]"
    by (simp add: history_after_load_def load_history_def numbers_store_def parse_numbers)
  moreover have "history_of_json (JArray [JNumber 1]) = None"
    by (simp add: history_of_json_def item_of_json_def)
  ultimately show ?thesis
    by (simp add: parse_numbers json_of_history_def)
qed

section \<open>Properties of the decoder\<close>

lemma uint_sample16: "uint (sample16 lo hi) = uint lo + 256 * uint hi"
proof -
  have lo: "0 \<le> uint lo" "uint lo < 256" and hi: "0 \<le> uint hi" "uint hi < 256"
    using uint_bounded [of lo] uint_bounded [of hi] by simp_all
  have "uint (sample16 lo hi) = take_bit 16 (concat_bit 8 (uint lo) (uint hi))"
    by (simp add: sample16_def word_cat_eq' uint_word_of_int_eq)
  also have "concat_bit 8 (uint lo) (uint hi) = uint lo + 256 * uint hi"
    using lo by (simp add: concat_bit_eq take_bit_int_eq_self push_bit_eq_mult)
  also have "take_bit 16 (uint lo + 256 * uint hi) = uint lo + 256 * uint hi"
    using lo hi by (simp add: take_bit_int_eq_self)
  finally show ?thesis .
qed

lemma sint_16: "sint (w :: 16 word) = (if uint w < 32768 then uint w else uint w - 65536)"
proof -
  have b: "0 \<le> uint w" "uint w < 65536"
    using uint_bounded [of w] by simp_all
  have "sint w = take_bit 16 (uint w + 32768) - 32768"
    by (simp add: sint_uint signed_take_bit_eq_take_bit_shift)
  also have "\<dots> = (uint w + 32768) mod 65536 - 32768"
    by (simp add: take_bit_eq_mod)
  also have "\<dots> = (if uint w < 32768 then uint w else uint w - 65536)"
  proof (cases "uint w < 32768")
    case True
    with b have "(uint w + 32768) mod 65536 = uint w + 32768"
      by (intro mod_pos_pos_trivial) simp_all
    with True show ?thesis by simp
  next
    case False
    with b have "(uint w - 32768) mod 65536 = uint w - 32768"
      by (intro mod_pos_pos_trivial) simp_all
    moreover have "uint w + 32768 = uint w - 32768 + 65536"
      by arith
    ultimately have "(uint w + 32768) mod 65536 = uint w - 32768"
      by (simp only: mod_add_self2)
    with False show ?thesis by simp
  qed
  finally show ?thesis .
qed

lemma sint_sample16: "sint (sample16 lo hi) = signed16_le lo hi"
  by (simp add: sint_16 uint_sample16 signed16_le_def Let_def)

lemma length_pcm_samples: "length (pcm_samples bs) = length bs div 2"
  by (induction bs rule: pcm_samples.induct) simp_all

lemma nth_pcm_samples:
  "i < length bs div 2 \<Longrightarrow> pcm_samples bs ! i = sample16 (bs ! (2 * i)) (bs ! (2 * i + 1))"
proof (induction bs arbitrary: i rule: pcm_samples.induct)
  case (1 lo hi bs)
  then show ?case by (cases i) simp_all
qed simp_all

subsection \<open>C5: decoding PCM audio\<close>

text \<open>
  C5. On a byte sequence of even length \<open>N\<close>, \<open>decodeAudioData\<close> gives a buffer of
  \<open>N/2\<close> samples, the \<open>i\<close>-th being the signed 16-bit little-endian integer of the
  bytes \<open>2i\<close> and \<open>2i+1\<close> divided by \<open>32768\<close>; on one of odd length it fails with
  the format error.
\<close>

theorem C5_pcm_decode:
  "(even (length bytes) \<longrightarrow>
      (\<exists>buf. decodeAudioData bytes rate = Inr buf \<and> sampleRate buf = rate \<and>
         length (channelData buf) = length bytes div 2 \<and>
         (\<forall>i < length bytes div 2.
            channelData buf ! i
              = real_of_int (signed16_le (bytes ! (2 * i)) (bytes ! (2 * i + 1))) / 32768))) \<and>
   (odd (length bytes) \<longrightarrow> decodeAudioData bytes rate = Inl FormatError)"
  by (simp add: decodeAudioData_def length_pcm_samples nth_pcm_samples normalize_def
      sint_sample16)

theorem C5_pcm_decode_witness:
  "even (length [0x00, 0x80, 0xFF, 0x7F :: 8 word]) \<and>
   decodeAudioData [0x00, 0x80, 0xFF, 0x7F] 24000
     = Inr \<lparr> sampleRate = 24000, channelData = [- 1, 32767 / 32768] \<rparr> \<and>
   odd (length [0x01 :: 8 word]) \<and>
   decodeAudioData [0x01] 24000 = Inl FormatError"
proof -
  have e: "even (length [0x00, 0x80, 0xFF, 0x7F :: 8 word])" by simp
  have o: "odd (length [0x01 :: 8 word])" by simp
  from C5_pcm_decode [of "[0x00, 0x80, 0xFF, 0x7F]" 24000] e
  obtain buf where buf: "decodeAudioData [0x00, 0x80, 0xFF, 0x7F] 24000 = Inr buf"
    and rate: "sampleRate buf = 24000"
    and len: "length (channelData buf) = 2"
    and nth: "\<forall>i < 2. channelData buf ! i
       = real_of_int (signed16_le ([0x00, 0x80, 0xFF, 0x7F] ! (2 * i))
           ([0x00, 0x80, 0xFF, 0x7F] ! (2 * i + 1))) / 32768"
    by auto
  from nth have "channelData buf ! 0
      = real_of_int (signed16_le ([0x00, 0x80, 0xFF, 0x7F] ! (2 * 0))
           ([0x00, 0x80, 0xFF, 0x7F] ! (2 * 0 + 1))) / 32768"
    and "channelData buf ! 1
      = real_of_int (signed16_le ([0x00, 0x80, 0xFF, 0x7F] ! (2 * 1))
           ([0x00, 0x80, 0xFF, 0x7F] ! (2 * 1 + 1))) / 32768"
    by simp_all
  then have "channelData buf ! 0 = - 1" "channelData buf ! 1 = 32767 / 32768"
    by (simp_all add: signed16_le_def)
  with len have "channelData buf = [- 1, 32767 / 32768]"
    by (cases "channelData buf"; cases "tl (channelData buf)") auto
  with rate have "buf = \<lparr> sampleRate = 24000, channelData = [- 1, 32767 / 32768] \<rparr>"
    by simp
  moreover from C5_pcm_decode [of "[0x01]" 24000] o
  have "decodeAudioData [0x01] 24000 = Inl FormatError" by blast
  ultimately show ?thesis using e o buf by simp
qed

section \<open>Properties of the handlers\<close>

subsection \<open>The transition system\<close>

lemma run_Nil [simp]: "run [] s = s"
  by (simp add: run_def)

lemma run_Cons [simp]: "run (ev # evs) s = run evs (fire ev s)"
  by (simp add: run_def)

lemma run_append: "run (evs @ evs') s = run evs' (run evs s)"
  by (simp add: run_def)

lemma act_fields [simp]:
  "app (act h s) = fst (h (app s))"
  "rendered (act h s) = rendered s"
  "pending (act h s) = pending s @ requests (snd (h (app s)))"
  "console (act h s) = console s @ logged (snd (h (app s)))"
  by (simp_all add: act_def split: prod.splits)

lemma settle_fields:
  "rendered (settle r h s) = rendered s"
  "app (settle r h s) = (if r \<in> set (pending s) then fst (h (app s)) else app s)"
  "pending (settle r h s) =
     (if r \<in> set (pending s) then remove1 r (pending s) @ requests (snd (h (app s)))
      else pending s)"
  "console (settle r h s) =
     (if r \<in> set (pending s) then console s @ logged (snd (h (app s))) else console s)"
  by (simp_all add: settle_def)

lemma list_all_remove1: "list_all P xs \<Longrightarrow> list_all P (remove1 r xs)"
  by (auto simp: list_all_iff dest: notin_set_remove1)

text \<open>With an override that is not empty, \<open>handleSearch\<close> does not read what it captured.\<close>

lemma handleSearch_override:
  "ov \<noteq> [] \<Longrightarrow> handleSearch e (Some ov) captured a = handleSearch e (Some ov) captured' a"
  by (simp add: handleSearch_def searchTerm_def)

subsection \<open>Concrete runs\<close>

lemma trim_neko: "trim (js ''neko'') = js ''neko''"
  by (simp add: trim_def js_def isWhiteSpace_def)

lemma neko_nonempty: "js ''neko'' \<noteq> []"
  by (simp add: js_def)

lemma run_looked_up:
  "run looked_up (mounted initialApp) =
     \<lparr> app = initialApp\<lparr> query := js ''neko'',
            state := initialState\<lparr> isLoadingImage := True, data := Some cat_a,
                       history := [newItem 1 2 cat_a] \<rparr> \<rparr>,
       rendered = initialApp\<lparr> query := js ''neko'',
            state := initialState\<lparr> isLoadingImage := True, data := Some cat_a,
                       history := [newItem 1 2 cat_a] \<rparr> \<rparr>,
       pending = [GenerateWordImage (js ''neko'') []],
       console = [] \<rparr>"
  by (simp add: looked_up_def mounted_def initialApp_def initialState_def handleSearch_def
      searchTerm_def trim_neko neko_nonempty settle_def act_def handleSearch_settled_def
      addToHistory_def has_word_def cat_a_def Let_def)

lemma successes_looked_up: "successes looked_up (mounted initialApp) = [cat_a]"
  by (simp add: looked_up_def mounted_def initialApp_def initialState_def handleSearch_def
      searchTerm_def trim_neko neko_nonempty settle_def act_def handleSearch_settled_def
      addToHistory_def has_word_def cat_a_def Let_def)

lemma run_not_found:
  "pending (run not_found (mounted initialApp)) = [] \<and>
   error (state (app (run not_found (mounted initialApp))))
     = Some (js ''Failed to find the word. Please try again.'')"
  by (simp add: not_found_def mounted_def initialApp_def initialState_def handleSearch_def
      searchTerm_def trim_neko neko_nonempty settle_def act_def handleSearch_settled_def
      Let_def)

subsection \<open>C6: a failed story\<close>

text \<open>
  C6, as amended. A story call can fail in two ways. When the call is rejected, the
  story phase resets (\<open>isGeneratingStory\<close> is false again), the error message of the
  component is set to "Failed to generate story.", nothing is logged and no request is
  issued. When the call returns no text, or the empty text, the story phase resets,
  the story slot is filled with "Could not generate story.", the error message is
  left as it was, nothing is logged and no request is issued.
\<close>

theorem C6_story_failure:
  "handleGenerateStory_settled (generateDailyStory_returns (Rejected reason)) a =
     (a\<lparr> state := (state a)\<lparr> error := Some (js ''Failed to generate story.''),
                            isGeneratingStory := False \<rparr> \<rparr>, []) \<and>
   handleGenerateStory_settled (generateDailyStory_returns (Resolved None)) a =
     (a\<lparr> state := (state a)\<lparr> dailyStory := Some (js ''Could not generate story.''),
                            isGeneratingStory := False \<rparr> \<rparr>, []) \<and>
   handleGenerateStory_settled (generateDailyStory_returns (Resolved (Some []))) a =
     (a\<lparr> state := (state a)\<lparr> dailyStory := Some (js ''Could not generate story.''),
                            isGeneratingStory := False \<rparr> \<rparr>, [])"
  by (simp add: handleGenerateStory_settled_def generateDailyStory_returns_def)

text \<open>
  The claim as stated fails. After a lookup the user opens the word book and asks for
  the story; the request for it is in flight and there is no error message. The
  request is rejected: the component has the error message "Failed to generate
  story.", and the console has no line.
\<close>

theorem C6_story_failure_counterexample:
  "GenerateDailyStory [newItem 1 2 cat_a]
     \<in> set (pending (run (looked_up @ [Navigate WORDBOOK, Render, CreateStory])
          (mounted initialApp))) \<and>
   error (state (app (run (looked_up @ [Navigate WORDBOOK, Render, CreateStory])
          (mounted initialApp)))) = None \<and>
   error (state (app (run (looked_up @ [Navigate WORDBOOK, Render, CreateStory,
        StorySettled [newItem 1 2 cat_a] (Rejected (js ''quota''))]) (mounted initialApp))))
     = Some (js ''Failed to generate story.'') \<and>
   console (run (looked_up @ [Navigate WORDBOOK, Render, CreateStory,
        StorySettled [newItem 1 2 cat_a] (Rejected (js ''quota''))]) (mounted initialApp)) = []"
  by (simp add: run_append run_looked_up handleGenerateStory_def settle_fields
      handleGenerateStory_settled_def generateDailyStory_returns_def initialState_def)

subsection \<open>C7: the image request follows a successful lookup\<close>

lemma justified_mono: "D \<subseteq> D' \<Longrightarrow> justified D r \<Longrightarrow> justified D' r"
  by (cases r) (auto simp: justified_def)

lemma image_inv_mono: "D \<subseteq> D' \<Longrightarrow> image_inv D s \<Longrightarrow> image_inv D' s"
  by (auto simp: image_inv_def list_all_iff intro: justified_mono)

lemma data_addToHistory [simp]: "data (addToHistory t1 t2 d st) = data st"
  by (simp add: addToHistory_def)

lemma safe_handleSearch: "image_safe D (handleSearch e ov c)"
  by (simp add: image_safe_def handleSearch_def Let_def justified_def)

lemma safe_handleSearch_rejected: "image_safe D (handleSearch_settled (Rejected reason) t1 t2)"
  by (simp add: image_safe_def handleSearch_settled_def)

lemma safe_handleSearch_resolved:
  "d \<in> D \<Longrightarrow> image_safe D (handleSearch_settled (Resolved d) t1 t2)"
  by (auto simp: image_safe_def handleSearch_settled_def justified_def)

lemma safe_generateImage_settled: "image_safe D (generateImage_settled out)"
  by (cases out) (simp_all add: image_safe_def generateImage_settled_def)

lemma safe_handleRegenerateImage:
  "set_option (data (state c)) \<subseteq> D \<Longrightarrow> image_safe D (handleRegenerateImage c)"
  by (auto simp: image_safe_def handleRegenerateImage_def justified_def split: option.splits)

lemma data_set_loadingKey [simp]: "data (set_loadingKey ty v st) = data st"
  by (cases ty) (simp_all add: set_loadingKey_def)

lemma safe_handlePlayAudio: "image_safe D (handlePlayAudio t ty c)"
  by (simp add: image_safe_def handlePlayAudio_def justified_def)

lemma safe_handlePlayAudio_settled: "image_safe D (handlePlayAudio_settled ty out)"
  by (cases out) (simp_all add: image_safe_def handlePlayAudio_settled_def)

lemma safe_handleGenerateStory: "image_safe D (handleGenerateStory c)"
  by (simp add: image_safe_def handleGenerateStory_def justified_def)

lemma safe_handleGenerateStory_settled: "image_safe D (handleGenerateStory_settled out)"
  by (cases out) (simp_all add: image_safe_def handleGenerateStory_settled_def)

lemma safe_handleImageUpload: "image_safe D (handleImageUpload choice)"
  by (cases choice) (simp_all add: image_safe_def handleImageUpload_def justified_def)

lemma safe_reader_onload: "image_safe D (reader_onload out)"
  by (cases out) (simp_all add: image_safe_def reader_onload_def justified_def)

lemma safe_reader_onload_settled: "image_safe D (reader_onload_settled out c)"
  unfolding image_safe_def
proof (intro allI impI)
  fix a :: App
  assume a: "set_option (data (state a)) \<subseteq> D"
  show "set_option (data (state (fst (reader_onload_settled out c a)))) \<subseteq> D \<and>
      list_all (justified D) (requests (snd (reader_onload_settled out c a)))"
  proof (cases out)
    case (Resolved extractedText)
    obtain a' es where h: "handleSearch False (Some extractedText) c
        (a\<lparr> query := extractedText \<rparr>) = (a', es)"
      by (cases "handleSearch False (Some extractedText) c (a\<lparr> query := extractedText \<rparr>)")
    from a have "set_option (data (state (a\<lparr> query := extractedText \<rparr>))) \<subseteq> D"
      by simp
    with safe_handleSearch [of D False "Some extractedText" c]
    have "set_option (data (state (fst (handleSearch False (Some extractedText) c
              (a\<lparr> query := extractedText \<rparr>))))) \<subseteq> D \<and>
          list_all (justified D) (requests (snd (handleSearch False (Some extractedText) c
              (a\<lparr> query := extractedText \<rparr>))))"
      unfolding image_safe_def by blast
    with h have "set_option (data (state a')) \<subseteq> D" and "list_all (justified D) (requests es)"
      by simp_all
    with Resolved h a show ?thesis
      by (simp add: reader_onload_settled_def)
  next
    case (Rejected reason)
    with a show ?thesis
      by (simp add: reader_onload_settled_def)
  qed
qed

lemma act_image:
  assumes "image_safe D h" and "image_inv D s"
  shows "image_inv D (act h s)"
  using assms by (simp add: image_safe_def image_inv_def)

lemma settle_image:
  assumes "image_safe D h" and "image_inv D s"
  shows "image_inv D (settle r h s)"
  using assms by (simp add: image_safe_def image_inv_def settle_fields list_all_remove1)

lemma fire_image:
  assumes inv: "image_inv D s"
  shows "image_inv (D \<union> set (success_of ev s)) (fire ev s)"
proof (cases ev)
  case Render
  with inv show ?thesis by (simp add: image_inv_def)
next
  case (Search e ov)
  with inv show ?thesis by (simp add: act_image safe_handleSearch del: act_fields)
next
  case (Typing q)
  with inv show ?thesis by (simp add: image_inv_def)
next
  case (Navigate v)
  with inv show ?thesis by (simp add: image_inv_def)
next
  case RegenerateImage
  from inv have "image_safe D (handleRegenerateImage (rendered s))"
    by (simp add: image_inv_def safe_handleRegenerateImage)
  with RegenerateImage inv show ?thesis by (simp add: act_image del: act_fields)
next
  case (PlayAudio t ty)
  with inv show ?thesis by (simp add: act_image safe_handlePlayAudio del: act_fields)
next
  case CreateStory
  with inv show ?thesis by (simp add: act_image safe_handleGenerateStory del: act_fields)
next
  case (UploadImage choice)
  with inv show ?thesis by (simp add: act_image safe_handleImageUpload del: act_fields)
next
  case Login
  with inv show ?thesis by (simp add: image_inv_def handleLogin_def)
next
  case Logout
  with inv show ?thesis by (simp add: image_inv_def handleLogout_def)
next
  case (DefinitionSettled q out t_id t_ts)
  show ?thesis
  proof (cases out)
    case (Resolved d)
    show ?thesis
    proof (cases "FetchDictionaryDefinition q \<in> set (pending s)")
      case True
      from inv have "image_inv (insert d D) s"
        by (rule image_inv_mono [rotated]) auto
      moreover have "image_safe (insert d D) (handleSearch_settled (Resolved d) t_id t_ts)"
        by (rule safe_handleSearch_resolved) simp
      ultimately have "image_inv (insert d D)
          (settle (FetchDictionaryDefinition q) (handleSearch_settled (Resolved d) t_id t_ts) s)"
        by (simp add: settle_image)
      with DefinitionSettled Resolved True show ?thesis by simp
    next
      case False
      with DefinitionSettled Resolved inv show ?thesis by (simp add: settle_def)
    qed
  next
    case (Rejected reason)
    with DefinitionSettled inv show ?thesis
      by (simp add: settle_image safe_handleSearch_rejected)
  qed
next
  case (ImageSettled w d out)
  with inv show ?thesis by (simp add: settle_image safe_generateImage_settled)
next
  case (SpeechSettled ty t out)
  with inv show ?thesis by (simp add: settle_image safe_handlePlayAudio_settled)
next
  case (StorySettled ws reply)
  with inv show ?thesis by (simp add: settle_image safe_handleGenerateStory_settled)
next
  case (FileRead out)
  with inv show ?thesis by (simp add: settle_image safe_reader_onload)
next
  case (TextExtracted b64 out)
  with inv show ?thesis by (simp add: settle_image safe_reader_onload_settled)
qed

lemma run_image:
  "image_inv D s \<Longrightarrow> image_inv (D \<union> set (successes evs s)) (run evs s)"
proof (induction evs arbitrary: D s)
  case Nil
  then show ?case by simp
next
  case (Cons ev evs)
  from Cons.prems have "image_inv (D \<union> set (success_of ev s)) (fire ev s)"
    by (rule fire_image)
  then have "image_inv (D \<union> set (success_of ev s) \<union> set (successes evs (fire ev s)))
      (run evs (fire ev s))"
    by (rule Cons.IH)
  then show ?case by (simp add: Un_assoc)
qed

lemma mounted_image: "image_inv (set_option (data (state a))) (mounted a)"
  by (simp add: image_inv_def mounted_def)

text \<open>
  C7. \<open>handleSearch\<close> itself issues nothing but the request for the definition, so
  no request for an image. When that request is rejected, the error message is set, no
  request is issued (so none for an image) and the history is as it was. When it
  resolves with a definition, the history is as it was if it has an item for the word,
  and has the new item for the definition at its front if not, and the request for the
  image of the word is issued. So, from the first render on, whatever the user does and
  however the requests settle, every image request in flight is for a definition that
  a lookup has resolved with in the run, or for the one that was on display at the
  first render (which \<open>handleRegenerateImage\<close> asks the image of).
\<close>

theorem C7_image_after_text:
  "(requests (snd (handleSearch e overrideQuery captured a)) = [] \<or>
    requests (snd (handleSearch e overrideQuery captured a))
      = [FetchDictionaryDefinition (searchTerm overrideQuery (query captured))]) \<and>
   error (state (fst (handleSearch_settled (Rejected reason) t_id t_ts a)))
      = Some (js ''Failed to find the word. Please try again.'') \<and>
   requests (snd (handleSearch_settled (Rejected reason) t_id t_ts a)) = [] \<and>
   history (state (fst (handleSearch_settled (Rejected reason) t_id t_ts a)))
      = history (state a) \<and>
   history (state (fst (handleSearch_settled (Resolved d) t_id t_ts a)))
      = (if \<exists>item \<in> set (history (state a)). word item = DictionaryResult.word d
         then history (state a)
         else \<lparr> id_field = int_toString t_id,
                word = DictionaryResult.word d,
                reading = DictionaryResult.reading d,
                definition_field = definition_cn d,
                definition_jp = DictionaryResult.definition_jp d,
                example_jp = DictionaryResult.example_jp d,
                example_cn = DictionaryResult.example_cn d,
                timestamp = t_ts \<rparr> # history (state a)) \<and>
   requests (snd (handleSearch_settled (Resolved d) t_id t_ts a))
      = [GenerateWordImage (DictionaryResult.word d) (definition_cn d)] \<and>
   (\<forall>w c. GenerateWordImage w c \<in> set (pending (run evs (mounted a))) \<longrightarrow>
      (\<exists>r. (r \<in> set (successes evs (mounted a)) \<or> data (state a) = Some r) \<and>
           w = DictionaryResult.word r \<and> c = definition_cn r))"
proof (intro conjI allI impI)
  show "requests (snd (handleSearch e overrideQuery captured a)) = [] \<or>
    requests (snd (handleSearch e overrideQuery captured a))
      = [FetchDictionaryDefinition (searchTerm overrideQuery (query captured))]"
    by (simp add: handleSearch_def Let_def)
next
  show "error (state (fst (handleSearch_settled (Rejected reason) t_id t_ts a)))
      = Some (js ''Failed to find the word. Please try again.'')"
    by (simp add: handleSearch_settled_def)
next
  show "requests (snd (handleSearch_settled (Rejected reason) t_id t_ts a)) = []"
    by (simp add: handleSearch_settled_def)
next
  show "history (state (fst (handleSearch_settled (Rejected reason) t_id t_ts a)))
      = history (state a)"
    by (simp add: handleSearch_settled_def)
next
  show "history (state (fst (handleSearch_settled (Resolved d) t_id t_ts a)))
      = (if \<exists>item \<in> set (history (state a)). word item = DictionaryResult.word d
         then history (state a)
         else \<lparr> id_field = int_toString t_id,
                word = DictionaryResult.word d,
                reading = DictionaryResult.reading d,
                definition_field = definition_cn d,
                definition_jp = DictionaryResult.definition_jp d,
                example_jp = DictionaryResult.example_jp d,
                example_cn = DictionaryResult.example_cn d,
                timestamp = t_ts \<rparr> # history (state a))"
    by (simp add: handleSearch_settled_def addToHistory_def has_word_iff newItem_def)
next
  show "requests (snd (handleSearch_settled (Resolved d) t_id t_ts a))
      = [GenerateWordImage (DictionaryResult.word d) (definition_cn d)]"
    by (simp add: handleSearch_settled_def)
next
  fix w c
  assume req: "GenerateWordImage w c \<in> set (pending (run evs (mounted a)))"
  have "image_inv (set_option (data (state a)) \<union> set (successes evs (mounted a)))
      (run evs (mounted a))"
    using mounted_image by (rule run_image)
  then have "list_all (justified (set_option (data (state a)) \<union> set (successes evs (mounted a))))
      (pending (run evs (mounted a)))"
    by (simp add: image_inv_def)
  with req have "justified (set_option (data (state a)) \<union> set (successes evs (mounted a)))
      (GenerateWordImage w c)"
    by (simp add: list_all_iff)
  then obtain r where "r \<in> set_option (data (state a)) \<union> set (successes evs (mounted a))"
    and "w = DictionaryResult.word r" and "c = definition_cn r"
    by (auto simp: justified_def)
  then show "\<exists>r. (r \<in> set (successes evs (mounted a)) \<or> data (state a) = Some r) \<and>
           w = DictionaryResult.word r \<and> c = definition_cn r"
    by (cases "data (state a)") auto
qed

theorem C7_image_after_text_witness:
  "GenerateWordImage (js ''neko'') [] \<in> set (pending (run looked_up (mounted initialApp))) \<and>
   successes looked_up (mounted initialApp) = [cat_a] \<and>
   (\<exists>r. (r \<in> set (successes looked_up (mounted initialApp)) \<or>
          data (state initialApp) = Some r) \<and>
        js ''neko'' = DictionaryResult.word r \<and> [] = definition_cn r) \<and>
   pending (run not_found (mounted initialApp)) = [] \<and>
   error (state (app (run not_found (mounted initialApp))))
     = Some (js ''Failed to find the word. Please try again.'')"
proof -
  have req: "GenerateWordImage (js ''neko'') []
      \<in> set (pending (run looked_up (mounted initialApp)))"
    by (simp add: run_looked_up)
  from C7_image_after_text [of _ _ _ initialApp _ _ _ _ looked_up] req
  have "\<exists>r. (r \<in> set (successes looked_up (mounted initialApp)) \<or>
          data (state initialApp) = Some r) \<and>
        js ''neko'' = DictionaryResult.word r \<and> [] = definition_cn r"
    by blast
  with req successes_looked_up run_not_found show ?thesis
    by (intro conjI) blast+
qed

subsection \<open>C8: the guard of the audio phases\<close>

lemma filter_remove1_other: "\<not> P r \<Longrightarrow> filter P (remove1 r xs) = filter P xs"
  by (induction xs) auto

lemma filter_remove1_hit:
  "r \<in> set xs \<Longrightarrow> P r \<Longrightarrow> Suc (length (filter P (remove1 r xs))) = length (filter P xs)"
  by (induction xs) auto

lemma loadingKey_addToHistory [simp]:
  "loadingKey ty (addToHistory t1 t2 d st) = loadingKey ty st"
  by (simp add: addToHistory_def loadingKey_def split: audio_type.splits)

lemma loadingKey_set_loadingKey [simp]:
  "loadingKey ty (set_loadingKey ty' v st) = (if ty' = ty then v else loadingKey ty st)"
  by (cases ty; cases ty') (simp_all add: loadingKey_def set_loadingKey_def)

lemma leaves_handleSearch: "leaves_audio ty (handleSearch e ov c)"
  by (simp add: leaves_audio_def handleSearch_def Let_def loadingKey_def split: audio_type.splits)

lemma leaves_handleSearch_settled: "leaves_audio ty (handleSearch_settled out t1 t2)"
  by (cases out) (simp_all add: leaves_audio_def handleSearch_settled_def,
      simp_all add: loadingKey_def split: audio_type.splits)

lemma leaves_generateImage_settled: "leaves_audio ty (generateImage_settled out)"
  by (cases out) (simp_all add: leaves_audio_def generateImage_settled_def loadingKey_def
      split: audio_type.splits)

lemma leaves_handleRegenerateImage: "leaves_audio ty (handleRegenerateImage c)"
  by (simp add: leaves_audio_def handleRegenerateImage_def loadingKey_def
      split: audio_type.splits option.splits)

lemma leaves_handleGenerateStory: "leaves_audio ty (handleGenerateStory c)"
  by (simp add: leaves_audio_def handleGenerateStory_def loadingKey_def
      split: audio_type.splits)

lemma leaves_handleGenerateStory_settled: "leaves_audio ty (handleGenerateStory_settled out)"
  by (cases out) (simp_all add: leaves_audio_def handleGenerateStory_settled_def loadingKey_def
      split: audio_type.splits)

lemma leaves_handleImageUpload: "leaves_audio ty (handleImageUpload choice)"
  by (cases choice) (simp_all add: leaves_audio_def handleImageUpload_def loadingKey_def
      split: audio_type.splits)

lemma leaves_reader_onload: "leaves_audio ty (reader_onload out)"
  by (cases out) (simp_all add: leaves_audio_def reader_onload_def)

lemma leaves_reader_onload_settled: "leaves_audio ty (reader_onload_settled out c)"
proof -
  have search: "loadingKey ty (state (fst (handleSearch e ov c a))) = loadingKey ty (state a) \<and>
      filter (is_speech ty) (requests (snd (handleSearch e ov c a))) = []" for e ov a
    using leaves_handleSearch [of ty e ov c] by (simp add: leaves_audio_def)
  have flag: "loadingKey ty (st\<lparr> isAnalyzingImage := v \<rparr>) = loadingKey ty st" for st v
    by (simp add: loadingKey_def split: audio_type.splits)
  have err: "loadingKey ty (st\<lparr> error := e, isAnalyzingImage := v \<rparr>) = loadingKey ty st"
    for st e v
    by (simp add: loadingKey_def split: audio_type.splits)
  show ?thesis
    unfolding leaves_audio_def
  proof (intro allI)
    fix a :: App
    show "loadingKey ty (state (fst (reader_onload_settled out c a))) = loadingKey ty (state a) \<and>
        filter (is_speech ty) (requests (snd (reader_onload_settled out c a))) = []"
    proof (cases out)
      case (Resolved extractedText)
      show ?thesis
      proof (cases "extractedText = []")
        case True
        with Resolved show ?thesis
          by (simp add: reader_onload_settled_def err)
      next
        case False
        obtain a' es where h: "handleSearch False (Some extractedText) c
            (a\<lparr> query := extractedText \<rparr>) = (a', es)"
          by (cases "handleSearch False (Some extractedText) c (a\<lparr> query := extractedText \<rparr>)")
        with search [of False "Some extractedText" "a\<lparr> query := extractedText \<rparr>"]
        have "loadingKey ty (state a') = loadingKey ty (state a)"
          and "filter (is_speech ty) (requests es) = []"
          by simp_all
        with Resolved False h show ?thesis
          by (simp add: reader_onload_settled_def flag)
      qed
    next
      case (Rejected reason)
      then show ?thesis
        by (simp add: reader_onload_settled_def err)
    qed
  qed
qed

lemma leaves_handlePlayAudio_other:
  "ty' \<noteq> ty \<Longrightarrow> leaves_audio ty (handlePlayAudio text ty' c)"
  by (simp add: leaves_audio_def handlePlayAudio_def)

lemma leaves_handlePlayAudio_settled_other:
  "ty' \<noteq> ty \<Longrightarrow> leaves_audio ty (handlePlayAudio_settled ty' out)"
  by (cases out) (simp_all add: leaves_audio_def handlePlayAudio_settled_def)

lemma act_leaves:
  assumes "leaves_audio ty h" and "audio_inv ty s"
  shows "audio_inv ty (act h s)"
  using assms by (simp add: leaves_audio_def audio_inv_def in_flight_def)

lemma settle_leaves:
  assumes "leaves_audio ty h" and "\<not> is_speech ty r" and "audio_inv ty s"
  shows "audio_inv ty (settle r h s)"
  using assms
  by (auto simp: leaves_audio_def audio_inv_def in_flight_def settle_fields filter_remove1_other
      split: if_splits)

text \<open>
  The guard as the code has it: with the flag set in the state that the handler
  captured, \<open>handlePlayAudio\<close> gives back the state as it was and issues nothing.
\<close>

lemma handlePlayAudio_guard:
  "loadingKey ty (state captured) \<Longrightarrow> handlePlayAudio t ty captured a = (a, [])"
  by (simp add: handlePlayAudio_def)

text \<open>The handler of a render that has seen the flag keeps flag and requests in step.\<close>

lemma play_audio_inv:
  assumes "audio_inv ty s"
    and "loadingKey ty (state (rendered s)) = loadingKey ty (state (app s))"
  shows "audio_inv ty (act (handlePlayAudio text ty (rendered s)) s)"
  using assms by (simp add: audio_inv_def in_flight_def handlePlayAudio_def split: if_splits)

lemma speech_settled_inv:
  assumes "audio_inv ty s"
  shows "audio_inv ty (settle (GenerateSpeech ty text) (handlePlayAudio_settled ty out) s)"
proof (cases "GenerateSpeech ty text \<in> set (pending s)")
  case True
  then have "Suc (length (filter (is_speech ty) (remove1 (GenerateSpeech ty text) (pending s))))
      = length (filter (is_speech ty) (pending s))"
    by (rule filter_remove1_hit) simp
  with assms have "filter (is_speech ty) (remove1 (GenerateSpeech ty text) (pending s)) = []"
    by (simp add: audio_inv_def in_flight_def split: if_splits)
  with True show ?thesis
    by (cases out)
      (simp_all add: settle_fields audio_inv_def in_flight_def handlePlayAudio_settled_def)
next
  case False
  with assms show ?thesis by (simp add: settle_def)
qed

lemma fire_audio_inv:
  assumes inv: "audio_inv ty s"
    and seen: "loadingKey ty (state (rendered s)) = loadingKey ty (state (app s))"
  shows "audio_inv ty (fire ev s)"
proof (cases ev)
  case Render
  with inv show ?thesis by (simp add: audio_inv_def in_flight_def)
next
  case (Search e ov)
  with inv show ?thesis by (simp add: act_leaves leaves_handleSearch del: act_fields)
next
  case (Typing q)
  with inv show ?thesis by (simp add: audio_inv_def in_flight_def)
next
  case (Navigate v)
  with inv show ?thesis by (simp add: audio_inv_def in_flight_def)
next
  case RegenerateImage
  with inv show ?thesis by (simp add: act_leaves leaves_handleRegenerateImage del: act_fields)
next
  case (PlayAudio t ty')
  show ?thesis
  proof (cases "ty' = ty")
    case True
    with PlayAudio inv seen show ?thesis by (simp add: play_audio_inv del: act_fields)
  next
    case False
    with PlayAudio inv show ?thesis
      by (simp add: act_leaves leaves_handlePlayAudio_other del: act_fields)
  qed
next
  case CreateStory
  with inv show ?thesis by (simp add: act_leaves leaves_handleGenerateStory del: act_fields)
next
  case (UploadImage choice)
  with inv show ?thesis by (simp add: act_leaves leaves_handleImageUpload del: act_fields)
next
  case Login
  with inv show ?thesis by (simp add: audio_inv_def in_flight_def handleLogin_def)
next
  case Logout
  with inv show ?thesis by (simp add: audio_inv_def in_flight_def handleLogout_def)
next
  case (DefinitionSettled q out t_id t_ts)
  with inv show ?thesis by (simp add: settle_leaves leaves_handleSearch_settled)
next
  case (ImageSettled w d out)
  with inv show ?thesis by (simp add: settle_leaves leaves_generateImage_settled)
next
  case (SpeechSettled ty' t out)
  show ?thesis
  proof (cases "ty' = ty")
    case True
    with SpeechSettled inv show ?thesis by (simp add: speech_settled_inv)
  next
    case False
    with SpeechSettled inv show ?thesis
      by (simp add: settle_leaves leaves_handlePlayAudio_settled_other)
  qed
next
  case (StorySettled ws reply)
  with inv show ?thesis by (simp add: settle_leaves leaves_handleGenerateStory_settled)
next
  case (FileRead out)
  with inv show ?thesis by (simp add: settle_leaves leaves_reader_onload)
next
  case (TextExtracted b64 out)
  with inv show ?thesis by (simp add: settle_leaves leaves_reader_onload_settled)
qed

text \<open>
  When a render follows every event, so that no handler runs on a flag older than the
  state, the guard does what it is there for: at most one request of an audio phase is
  in flight.
\<close>

lemma run_rendering_inv:
  assumes "audio_inv ty s" and "rendered s = app s"
  shows "audio_inv ty (run (rendering evs) s) \<and>
         rendered (run (rendering evs) s) = app (run (rendering evs) s)"
  using assms
proof (induction evs arbitrary: s)
  case Nil
  then show ?case by (simp add: rendering_def)
next
  case (Cons ev evs)
  from Cons.prems have "audio_inv ty (fire ev s)"
    by (simp add: fire_audio_inv)
  then have "audio_inv ty (fire Render (fire ev s))"
    by (simp add: audio_inv_def in_flight_def)
  moreover have "rendered (fire Render (fire ev s)) = app (fire Render (fire ev s))"
    by simp
  ultimately have "audio_inv ty (run (rendering evs) (fire Render (fire ev s))) \<and>
      rendered (run (rendering evs) (fire Render (fire ev s)))
        = app (run (rendering evs) (fire Render (fire ev s)))"
    by (rule Cons.IH)
  then show ?case by (simp add: rendering_def)
qed

lemma audio_guard_rendered:
  assumes "\<not> loadingKey ty (state a)"
  shows "in_flight ty (run (rendering evs) (mounted a)) \<le> 1"
proof -
  from assms have "audio_inv ty (mounted a)" and "rendered (mounted a) = app (mounted a)"
    by (simp_all add: audio_inv_def in_flight_def mounted_def)
  then have "audio_inv ty (run (rendering evs) (mounted a))"
    by (simp add: run_rendering_inv)
  then show ?thesis
    by (simp add: audio_inv_def split: if_splits)
qed


subsection \<open>C9: the story takes at most ten items\<close>

lemma bounded_handleSearch: "issues_bounded (handleSearch e ov c)"
  by (simp add: issues_bounded_def handleSearch_def Let_def story_bounded_def)

lemma bounded_handleSearch_settled: "issues_bounded (handleSearch_settled out t1 t2)"
  by (cases out) (simp_all add: issues_bounded_def handleSearch_settled_def story_bounded_def)

lemma bounded_generateImage_settled: "issues_bounded (generateImage_settled out)"
  by (cases out) (simp_all add: issues_bounded_def generateImage_settled_def)

lemma bounded_handleRegenerateImage: "issues_bounded (handleRegenerateImage c)"
  by (simp add: issues_bounded_def handleRegenerateImage_def story_bounded_def
      split: option.splits)

lemma bounded_handlePlayAudio: "issues_bounded (handlePlayAudio t ty c)"
  by (simp add: issues_bounded_def handlePlayAudio_def story_bounded_def)

lemma bounded_handlePlayAudio_settled: "issues_bounded (handlePlayAudio_settled ty out)"
  by (cases out) (simp_all add: issues_bounded_def handlePlayAudio_settled_def)

lemma bounded_handleGenerateStory: "issues_bounded (handleGenerateStory c)"
  by (simp add: issues_bounded_def handleGenerateStory_def story_bounded_def)

lemma bounded_handleGenerateStory_settled: "issues_bounded (handleGenerateStory_settled out)"
  by (cases out) (simp_all add: issues_bounded_def handleGenerateStory_settled_def)

lemma bounded_handleImageUpload: "issues_bounded (handleImageUpload choice)"
  by (cases choice) (simp_all add: issues_bounded_def handleImageUpload_def story_bounded_def)

lemma bounded_reader_onload: "issues_bounded (reader_onload out)"
  by (cases out) (simp_all add: issues_bounded_def reader_onload_def story_bounded_def)

lemma bounded_reader_onload_settled: "issues_bounded (reader_onload_settled out c)"
  unfolding issues_bounded_def
proof (intro allI)
  fix a
  show "list_all story_bounded (requests (snd (reader_onload_settled out c a)))"
  proof (cases out)
    case (Resolved extractedText)
    obtain a' es where h: "handleSearch False (Some extractedText) c
        (a\<lparr> query := extractedText \<rparr>) = (a', es)"
      by (cases "handleSearch False (Some extractedText) c (a\<lparr> query := extractedText \<rparr>)")
    have "list_all story_bounded (requests (snd (handleSearch False (Some extractedText) c
        (a\<lparr> query := extractedText \<rparr>))))"
      using bounded_handleSearch [of False "Some extractedText" c]
      by (simp add: issues_bounded_def)
    with h have "list_all story_bounded (requests es)"
      by simp
    with Resolved h show ?thesis
      by (simp add: reader_onload_settled_def)
  next
    case (Rejected reason)
    then show ?thesis
      by (simp add: reader_onload_settled_def)
  qed
qed

lemma act_bounded:
  assumes "issues_bounded h" and "list_all story_bounded (pending s)"
  shows "list_all story_bounded (pending (act h s))"
  using assms by (simp add: issues_bounded_def)

lemma settle_bounded:
  assumes "issues_bounded h" and "list_all story_bounded (pending s)"
  shows "list_all story_bounded (pending (settle r h s))"
  using assms by (simp add: issues_bounded_def settle_fields list_all_remove1)

lemma fire_bounded:
  assumes "list_all story_bounded (pending s)"
  shows "list_all story_bounded (pending (fire ev s))"
  using assms
  by (cases ev)
    (simp_all add: act_bounded settle_bounded bounded_handleSearch bounded_handleSearch_settled
      bounded_generateImage_settled bounded_handleRegenerateImage bounded_handlePlayAudio
      bounded_handlePlayAudio_settled bounded_handleGenerateStory
      bounded_handleGenerateStory_settled bounded_handleImageUpload bounded_reader_onload
      bounded_reader_onload_settled del: act_fields)

lemma run_bounded:
  "list_all story_bounded (pending s) \<Longrightarrow> list_all story_bounded (pending (run evs s))"
  by (induction evs arbitrary: s) (simp_all add: fire_bounded)

text \<open>
  C9. Every story request that \<open>handleGenerateStory\<close> issues carries the first ten
  elements of the history that it captured (all of it when it is shorter), so at most
  ten items. So, from a state with nothing in flight, whatever the user does and
  however the requests settle, no story request in flight carries more than ten items.
\<close>

theorem C9_story_prefix:
  "(\<forall>ws. GenerateDailyStory ws \<in> set (requests (snd (handleGenerateStory captured a))) \<longrightarrow>
      ws = take 10 (history (state captured)) \<and> length ws \<le> 10) \<and>
   (\<forall>ws. GenerateDailyStory ws
        \<in> set (pending (run evs \<lparr> app = a, rendered = captured, pending = [], console = k \<rparr>))
      \<longrightarrow> length ws \<le> 10)"
proof (intro conjI allI impI)
  fix ws
  assume "GenerateDailyStory ws \<in> set (requests (snd (handleGenerateStory captured a)))"
  then show "ws = take 10 (history (state captured))" and "length ws \<le> 10"
    by (simp_all add: handleGenerateStory_def split: if_splits)
next
  fix ws
  assume ws: "GenerateDailyStory ws
    \<in> set (pending (run evs \<lparr> app = a, rendered = captured, pending = [], console = k \<rparr>))"
  have "list_all story_bounded
      (pending (run evs \<lparr> app = a, rendered = captured, pending = [], console = k \<rparr>))"
    by (rule run_bounded) simp
  with ws have "story_bounded (GenerateDailyStory ws)"
    by (simp add: list_all_iff)
  then show "length ws \<le> 10"
    by (simp add: story_bounded_def)
qed

theorem C9_story_prefix_witness:
  "length (history (state twelve_words)) = 12 \<and>
   pending (run [CreateStory] (mounted twelve_words))
     = [GenerateDailyStory (take 10 (history (state twelve_words)))] \<and>
   length (take 10 (history (state twelve_words))) \<le> 10"
proof -
  have len: "length (history (state twelve_words)) = 12"
    by (simp add: twelve_words_def)
  have idle: "\<not> isGeneratingStory (state twelve_words)"
    by (simp add: twelve_words_def initialState_def)
  from len idle have req: "pending (run [CreateStory] (mounted twelve_words))
      = [GenerateDailyStory (take 10 (history (state twelve_words)))]"
    by (simp add: mounted_def handleGenerateStory_def)
  then have "GenerateDailyStory (take 10 (history (state twelve_words)))
      \<in> set (pending (run [CreateStory]
          \<lparr> app = twelve_words, rendered = twelve_words, pending = [], console = [] \<rparr>))"
    by (simp add: mounted_def)
  with C9_story_prefix [of twelve_words twelve_words "[CreateStory]" "[]"]
  have "length (take 10 (history (state twelve_words))) \<le> 10"
    by blast
  with len req show ?thesis by (intro conjI)
qed

subsection \<open>C10: a blank search term\<close>

lemma trim_empty_iff: "trim t = [] \<longleftrightarrow> list_all isWhiteSpace t"
proof -
  have "trim t = [] \<longleftrightarrow> (\<forall>c \<in> set (dropWhile isWhiteSpace t). isWhiteSpace c)"
    by (simp add: trim_def)
  also have "\<dots> \<longleftrightarrow> dropWhile isWhiteSpace t = []"
    using hd_dropWhile [of isWhiteSpace t]
    by (cases "dropWhile isWhiteSpace t") (auto dest: set_dropWhileD)
  also have "\<dots> \<longleftrightarrow> list_all isWhiteSpace t"
    by (simp add: list_all_iff)
  finally show ?thesis .
qed

text \<open>
  C10. When the search term (the override, or the query when there is none) is empty or
  consists of white space only, \<open>handleSearch\<close> returns the component state as it
  was, so no loading flag is set and history and error are unchanged, and it issues no
  request. The query is the one that the handler captured; the state given back is the
  one that the updaters would have run on.
\<close>

theorem C10_blank_search_noop:
  assumes "list_all isWhiteSpace (searchTerm overrideQuery (query captured))"
  shows "fst (handleSearch e overrideQuery captured a) = a \<and>
         requests (snd (handleSearch e overrideQuery captured a)) = []"
proof -
  from assms have "trim (searchTerm overrideQuery (query captured)) = []"
    by (simp add: trim_empty_iff)
  then show ?thesis
    by (simp add: handleSearch_def Let_def)
qed

theorem C10_blank_search_noop_witness:
  "list_all isWhiteSpace (searchTerm (Some []) (query blank_query)) \<and>
   fst (handleSearch True (Some []) blank_query blank_query) = blank_query \<and>
   requests (snd (handleSearch True (Some []) blank_query blank_query)) = []"
proof -
  have blank: "list_all isWhiteSpace (searchTerm (Some []) (query blank_query))"
    by (simp add: searchTerm_def blank_query_def isWhiteSpace_def)
  from C10_blank_search_noop [OF blank, of True blank_query] blank show ?thesis
    by (intro conjI) simp_all
qed

end
